theory Spec2Isabelle
  imports Complex_Main "HOL-Library.Sublist"
begin

section \<open>Strings\<close>

text \<open>
  A JavaScript string is a sequence of UTF-16 code units. A code unit is modelled as a
  natural number (a real one is below \<open>0x10000\<close>); \<open>s.charCodeAt(i)\<close> and \<open>s[i]\<close> read
  one unit, \<open>for (const ch of s)\<close> reads one code point, pairing surrogates.
\<close>

type_synonym jsstring = "nat list"

text \<open>\<open>c.repeat(n)\<close> for a count that the caller has already shown to be non-negative.\<close>

definition rep :: "nat \<Rightarrow> jsstring \<Rightarrow> jsstring" where
  "rep n c = concat (replicate n c)"

text \<open>\<open>s.split('\n')\<close>: the segments between line feeds; never the empty array.\<close>

fun splitNl :: "jsstring \<Rightarrow> jsstring list" where
  "splitNl [] = [[]]"
| "splitNl (c # cs) =
     (if c = 0x0a then [] # splitNl cs
      else (case splitNl cs of [] \<Rightarrow> [[c]] | l # ls \<Rightarrow> (c # l) # ls))"

text \<open>\<open>lines.join('\n')\<close>.\<close>

fun joinNl :: "jsstring list \<Rightarrow> jsstring" where
  "joinNl [] = []"
| "joinNl [l] = l"
| "joinNl (l # m # ls) = l @ 0x0a # joinNl (m # ls)"

text \<open>The code points that \<open>for (const ch of s)\<close> visits.\<close>

fun codePoints :: "jsstring \<Rightarrow> nat list" where
  "codePoints [] = []"
| "codePoints [c] = [c]"
| "codePoints (h # l # cs) =
     (if 0xD800 \<le> h \<and> h \<le> 0xDBFF \<and> 0xDC00 \<le> l \<and> l \<le> 0xDFFF
      then (0x10000 + (h - 0xD800) * 0x400 + (l - 0xDC00)) # codePoints cs
      else h # codePoints (l # cs))"

section \<open>Options\<close>

text \<open>
  A position is a JavaScript number, a double. Every finite double is a rational and the
  comparison of doubles with 0 and 1 is exact, so a position is modelled as a rational. In
  \<open>joinHorizontal\<close> and \<open>joinVertical\<close>, which only compare, an infinity takes the branch of
  a number below 0 or above 1 and \<open>NaN\<close> the branch of a number between them; \<open>NaN\<close> in
  \<open>place\<close> is not modelled. The one product of doubles, in \<open>place\<close>, is a parameter there.
\<close>

type_synonym position = rat

text \<open>\<open>BorderChars\<close> of border.ts; \<open>topEdge\<close> is its field \<open>top\<close>.\<close>

record BorderChars =
  topEdge :: jsstring
  bottom :: jsstring
  left :: jsstring
  right :: jsstring
  topLeft :: jsstring
  topRight :: jsstring
  bottomLeft :: jsstring
  bottomRight :: jsstring

definition NoBorder :: BorderChars where
  "NoBorder = \<lparr>topEdge = [], bottom = [], left = [], right = [], topLeft = [],
     topRight = [], bottomLeft = [], bottomRight = []\<rparr>"

text \<open>
  The options of a \<open>Style\<close>. The numbers are integers. A colour is a value of the type
  \<open>'c\<close>, and \<open>colorToSequence\<close>, which prints JavaScript numbers into an escape sequence, is
  a parameter of every function that calls it: any function from a colour and the flag
  \<open>isForeground\<close> to a string. The \<open>transform\<close> callback is a function on strings, or
  absent; a callback that raises is not modelled.
\<close>

record 'c StyleOptions =
  bold :: bool
  italic :: bool
  underline :: bool
  strikethrough :: bool
  blink :: bool
  faint :: bool
  reverse :: bool
  foreground :: "'c option"
  background :: "'c option"
  width :: int
  height :: int
  maxWidth :: int
  maxHeight :: int
  alignHorizontal :: position
  alignVertical :: position
  paddingTop :: int
  paddingRight :: int
  paddingBottom :: int
  paddingLeft :: int
  marginTop :: int
  marginRight :: int
  marginBottom :: int
  marginLeft :: int
  marginBackground :: "'c option"
  border :: BorderChars
  borderTop :: bool
  borderRight :: bool
  borderBottom :: bool
  borderLeft :: bool
  borderForeground :: "'c option"
  borderBackground :: "'c option"
  inline :: bool
  colorWhitespace :: bool
  tabWidth :: int
  transform :: "(jsstring \<Rightarrow> jsstring) option"

section \<open>width.ts\<close>

datatype State = Ground | Escape | CsiEntry | CsiParam | CsiIntermediate | OscString

definition isCsiParam :: "nat \<Rightarrow> bool" where
  "isCsiParam b \<longleftrightarrow> 0x30 \<le> b \<and> b \<le> 0x3f"

definition isCsiIntermediate :: "nat \<Rightarrow> bool" where
  "isCsiIntermediate b \<longleftrightarrow> 0x20 \<le> b \<and> b \<le> 0x2f"

definition isCsiFinal :: "nat \<Rightarrow> bool" where
  "isCsiFinal b \<longleftrightarrow> 0x40 \<le> b \<and> b \<le> 0x7e"

definition codePointWidth :: "nat \<Rightarrow> nat" where
  "codePointWidth cp =
     (if cp < 0x20 \<or> (0x7f \<le> cp \<and> cp < 0xa0) then 0
      else if 0x20 \<le> cp \<and> cp \<le> 0x7e then 1
      else if (0x1100 \<le> cp \<and> cp \<le> 0x115f) \<or>
              (0x2e80 \<le> cp \<and> cp \<le> 0x9fff) \<or>
              (0xac00 \<le> cp \<and> cp \<le> 0xd7a3) \<or>
              (0xf900 \<le> cp \<and> cp \<le> 0xfaff) \<or>
              (0xfe10 \<le> cp \<and> cp \<le> 0xfe1f) \<or>
              (0xfe30 \<le> cp \<and> cp \<le> 0xfe6f) \<or>
              (0xff00 \<le> cp \<and> cp \<le> 0xff60) \<or>
              (0xffe0 \<le> cp \<and> cp \<le> 0xffe6) \<or>
              (0x20000 \<le> cp \<and> cp \<le> 0x2fffd) \<or>
              (0x30000 \<le> cp \<and> cp \<le> 0x3fffd) then 2
      else if cp = 0x200d \<or>
              (0xfe00 \<le> cp \<and> cp \<le> 0xfe0f) \<or>
              (0x1f3fb \<le> cp \<and> cp \<le> 0x1f3ff) then 0
      else if (0x1f300 \<le> cp \<and> cp \<le> 0x1f9ff) \<or>
              (0x1fa00 \<le> cp \<and> cp \<le> 0x1faff) \<or>
              (0x2600 \<le> cp \<and> cp \<le> 0x26ff) \<or>
              (0x2700 \<le> cp \<and> cp \<le> 0x27bf) then 2
      else 1)"

text \<open>
  The \<open>while\<close> loop of \<open>stripAnsi\<close>, from index \<open>i\<close> on: the state and the rest of the
  input go in, what the loop appends to \<open>result\<close> comes out.
\<close>

fun stripLoop :: "State \<Rightarrow> jsstring \<Rightarrow> jsstring" where
  "stripLoop st [] = []"
| "stripLoop Ground (c # cs) =
     (if c = 0x1b then stripLoop Escape cs
      else if c = 0x9b then stripLoop CsiEntry cs
      else if c = 0x9d then stripLoop OscString cs
      else c # stripLoop Ground cs)"
| "stripLoop Escape (c # cs) =
     (if c = 0x5b then stripLoop CsiEntry cs
      else if c = 0x5d then stripLoop OscString cs
      else if 0x40 \<le> c \<and> c \<le> 0x5f then stripLoop Ground cs
      else if 0x60 \<le> c \<and> c \<le> 0x7e then stripLoop Ground cs
      else 0x1b # c # stripLoop Ground cs)"
| "stripLoop CsiEntry (c # cs) =
     (if isCsiParam c then stripLoop CsiParam cs
      else if isCsiIntermediate c then stripLoop CsiIntermediate cs
      else if isCsiFinal c then stripLoop Ground cs
      else stripLoop CsiEntry cs)"
| "stripLoop CsiParam (c # cs) =
     (if isCsiIntermediate c then stripLoop CsiIntermediate cs
      else if isCsiFinal c then stripLoop Ground cs
      else stripLoop CsiParam cs)"
| "stripLoop CsiIntermediate (c # cs) =
     (if isCsiFinal c then stripLoop Ground cs
      else stripLoop CsiIntermediate cs)"
| "stripLoop OscString (c # cs) =
     (if c = 0x07 \<or> c = 0x9c then stripLoop Ground cs
      else (case cs of
              [] \<Rightarrow> stripLoop OscString cs
            | d # ds \<Rightarrow> if c = 0x1b \<and> d = 0x5c then stripLoop Ground ds
                       else stripLoop OscString cs))"

definition stripAnsi :: "jsstring \<Rightarrow> jsstring" where
  "stripAnsi s =
     (if 0x1b \<notin> set s \<and> 0x9b \<notin> set s then s else stripLoop Ground s)"

text \<open>The \<open>for\<close> loop of \<open>stringWidth\<close>: the widths of the code points of a string, added.\<close>

definition sumWidths :: "jsstring \<Rightarrow> nat" where
  "sumWidths s = sum_list (map codePointWidth (codePoints s))"

definition stringWidth :: "jsstring \<Rightarrow> nat" where
  "stringWidth s = (if s = [] then 0 else sumWidths (stripAnsi s))"

definition maxLineWidth :: "jsstring \<Rightarrow> nat" where
  "maxLineWidth s = foldl (\<lambda>mx line. if stringWidth line > mx then stringWidth line else mx)
                          0 (splitNl s)"

definition lineCount :: "jsstring \<Rightarrow> nat" where
  "lineCount s = (if s = [] then 0 else length (splitNl s))"

text \<open>
  The \<open>for\<close> loop of \<open>truncate\<close>, from index \<open>i\<close> on. \<open>tw\<close> is \<open>targetWidth\<close>, \<open>buf\<close> is
  \<open>escapeBuffer\<close>, \<open>w\<close> is \<open>currentWidth\<close>; the value is what the loop appends to
  \<open>result\<close>. A buffer still pending when the input ends is not appended.
\<close>

fun truncLoop :: "int \<Rightarrow> State \<Rightarrow> jsstring \<Rightarrow> int \<Rightarrow> jsstring \<Rightarrow> jsstring" where
  "truncLoop tw st buf w [] = []"
| "truncLoop tw Ground buf w (c # cs) =
     (if c = 0x1b then truncLoop tw Escape [c] w cs
      else if c = 0x9b then truncLoop tw CsiEntry [c] w cs
      else if w + int (codePointWidth c) > tw then []
      else c # truncLoop tw Ground buf (w + int (codePointWidth c)) cs)"
| "truncLoop tw Escape buf w (c # cs) =
     (if c = 0x5b then truncLoop tw CsiEntry (buf @ [c]) w cs
      else if c = 0x5d then truncLoop tw OscString (buf @ [c]) w cs
      else (buf @ [c]) @ truncLoop tw Ground [] w cs)"
| "truncLoop tw CsiEntry buf w (c # cs) =
     (if isCsiFinal c then (buf @ [c]) @ truncLoop tw Ground [] w cs
      else if isCsiParam c then truncLoop tw CsiParam (buf @ [c]) w cs
      else if isCsiIntermediate c then truncLoop tw CsiIntermediate (buf @ [c]) w cs
      else truncLoop tw CsiEntry (buf @ [c]) w cs)"
| "truncLoop tw CsiParam buf w (c # cs) =
     (if isCsiFinal c then (buf @ [c]) @ truncLoop tw Ground [] w cs
      else if isCsiParam c then truncLoop tw CsiParam (buf @ [c]) w cs
      else if isCsiIntermediate c then truncLoop tw CsiIntermediate (buf @ [c]) w cs
      else truncLoop tw CsiParam (buf @ [c]) w cs)"
| "truncLoop tw CsiIntermediate buf w (c # cs) =
     (if isCsiFinal c then (buf @ [c]) @ truncLoop tw Ground [] w cs
      else truncLoop tw CsiIntermediate (buf @ [c]) w cs)"
| "truncLoop tw OscString buf w (c # cs) =
     (if c = 0x07 then (buf @ [c]) @ truncLoop tw Ground [] w cs
      else (case cs of
              [] \<Rightarrow> truncLoop tw OscString (buf @ [c]) w cs
            | d # ds \<Rightarrow> if c = 0x1b \<and> d = 0x5c
                       then (buf @ [c, d]) @ truncLoop tw Ground [] w ds
                       else truncLoop tw OscString (buf @ [c]) w cs))"

text \<open>
  In the functions below a parameter that has the name of a field of the options is
  abbreviated: \<open>w\<close> for \<open>width\<close>, \<open>h\<close> for \<open>height\<close>, \<open>maxW\<close> for \<open>maxWidth\<close>, \<open>maxH\<close> for
  \<open>maxHeight\<close>, \<open>bg\<close> for \<open>background\<close>.
\<close>

definition truncate :: "jsstring \<Rightarrow> int \<Rightarrow> jsstring \<Rightarrow> jsstring" where
  "truncate s maxW tail =
     (if maxW \<le> 0 then []
      else if int (stringWidth s) \<le> maxW then s
      else if maxW - int (stringWidth tail) \<le> 0 then take (nat maxW) tail
      else truncLoop (maxW - int (stringWidth tail)) Ground [] 0 s @ tail)"

definition padLeft :: "jsstring \<Rightarrow> int \<Rightarrow> jsstring \<Rightarrow> jsstring" where
  "padLeft s w char =
     (if int (stringWidth s) \<ge> w then s
      else rep (nat (w - int (stringWidth s))) char @ s)"

definition padRight :: "jsstring \<Rightarrow> int \<Rightarrow> jsstring \<Rightarrow> jsstring" where
  "padRight s w char =
     (if int (stringWidth s) \<ge> w then s
      else s @ rep (nat (w - int (stringWidth s))) char)"

section \<open>layout.ts\<close>

text \<open>
  Every exception of this code is a \<open>RangeError\<close>, and it has one of three causes: a
  negative count given to \<open>repeat\<close>, a length of \<open>2^32\<close> or more given to \<open>new Array\<close>, and
  a string longer than the engine builds.
\<close>

datatype cause = InvalidCount | InvalidArrayLength | InvalidStringLength

datatype error = RangeError cause

text \<open>
  The longest string of V8, the engine of Node.js, on a 64-bit platform. Other engines have
  other limits. Running out of memory below the limit is not an exception and not modelled.
  The limit is modelled in \<open>place\<close> and in style.ts, where sizes are arguments; in width.ts
  and in the two joins, where every size comes from the strings given, it is not.
\<close>

definition maxStringLength :: nat where
  "maxStringLength = 2 ^ 29 - 24"

text \<open>A string that the code has built, by \<open>+\<close>, \<open>join\<close>, \<open>replace\<close> or a template.\<close>

definition built :: "jsstring \<Rightarrow> error + jsstring" where
  "built s =
     (if length s > maxStringLength then Inl (RangeError InvalidStringLength) else Inr s)"

text \<open>\<open>s.repeat(n)\<close>, for an integer \<open>n\<close>.\<close>

definition repeat :: "jsstring \<Rightarrow> int \<Rightarrow> error + jsstring" where
  "repeat s n =
     (if n < 0 then Inl (RangeError InvalidCount)
      else if nat n * length s > maxStringLength then Inl (RangeError InvalidStringLength)
      else Inr (rep (nat n) s))"

text \<open>\<open>new Array(n).fill(x)\<close>, for an integer \<open>n\<close>.\<close>

definition newArrayFill :: "int \<Rightarrow> 'a \<Rightarrow> error + 'a list" where
  "newArrayFill n x =
     (if n < 0 \<or> n \<ge> 2 ^ 32 then Inl (RangeError InvalidArrayLength)
      else Inr (replicate (nat n) x))"

text \<open>What follows a raise is not run.\<close>

definition bindE :: "error + 'a \<Rightarrow> ('a \<Rightarrow> error + 'b) \<Rightarrow> error + 'b" where
  "bindE m f = (case m of Inl e \<Rightarrow> Inl e | Inr x \<Rightarrow> f x)"

text \<open>A loop that pushes one computed row after the other and stops at the first raise.\<close>

fun mapE :: "('a \<Rightarrow> error + 'b) \<Rightarrow> 'a list \<Rightarrow> error + 'b list" where
  "mapE f [] = Inr []"
| "mapE f (x # xs) =
     (case f x of
        Inl e \<Rightarrow> Inl e
      | Inr y \<Rightarrow> (case mapE f xs of Inl e \<Rightarrow> Inl e | Inr ys \<Rightarrow> Inr (y # ys)))"

definition space :: jsstring where
  "space = [0x20]"

text \<open>The callback of \<open>allLines.map\<close> in \<open>joinHorizontal\<close>: one block moved to \<open>maxH\<close> rows.\<close>

definition alignBlock :: "position \<Rightarrow> nat \<Rightarrow> jsstring list \<Rightarrow> nat \<Rightarrow> jsstring list" where
  "alignBlock pos maxH lines w =
     (if length lines = maxH then lines
      else
        let diff = maxH - length lines;
            emptyLine = rep w space
        in if pos \<le> 0 then lines @ replicate diff emptyLine
           else if pos \<ge> 1 then replicate diff emptyLine @ lines
           else replicate (diff div 2) emptyLine @ lines
                @ replicate (diff - diff div 2) emptyLine)"

text \<open>\<open>lines[row]\<close>, which \<open>join\<close> prints as the empty string when it is \<open>undefined\<close>.\<close>

definition rowOf :: "nat \<Rightarrow> jsstring list \<Rightarrow> jsstring" where
  "rowOf row lines = (if row < length lines then lines ! row else [])"

definition joinHorizontal :: "position \<Rightarrow> jsstring list \<Rightarrow> jsstring" where
  "joinHorizontal pos strs =
     (if strs = [] then []
      else if length strs = 1 then hd strs
      else
        let allLines = map splitNl strs;
            maxH = foldr max (map length allLines) 0;
            widths = map (\<lambda>lines. maxLineWidth (joinNl lines)) allLines;
            alignedLines = map (\<lambda>(lines, w). alignBlock pos maxH lines w)
                               (zip allLines widths);
            paddedLines = map (\<lambda>(lines, w). map (\<lambda>line. padRight line (int w) space) lines)
                              (zip alignedLines widths);
            result = map (\<lambda>row. concat (map (rowOf row) paddedLines)) [0..<maxH]
        in joinNl result)"

text \<open>The callback of \<open>lines.map\<close> in \<open>joinVertical\<close>: one line moved to \<open>maxW\<close> columns.\<close>

definition alignLine :: "position \<Rightarrow> nat \<Rightarrow> jsstring \<Rightarrow> jsstring" where
  "alignLine pos maxW line =
     (if stringWidth line = maxW then line
      else
        let diff = int maxW - int (stringWidth line)
        in if pos \<le> 0 then padRight line (int maxW) space
           else if pos \<ge> 1 then rep (nat diff) space @ line
           else rep (nat (diff div 2)) space @ line @ rep (nat (diff - diff div 2)) space)"

definition joinVertical :: "position \<Rightarrow> jsstring list \<Rightarrow> jsstring" where
  "joinVertical pos strs =
     (if strs = [] then []
      else if length strs = 1 then hd strs
      else
        let maxW = foldr max (map maxLineWidth strs) 0;
            aligned = map (\<lambda>s. joinNl (map (alignLine pos maxW) (splitNl s))) strs
        in joinNl aligned)"

text \<open>
  The start column or row of \<open>place\<close>, from the position and the free space. Between 0
  and 1 it is \<open>Math.floor(free * p)\<close>, where the product of the two doubles is rounded
  before the floor is taken (10 times 0.7 is 7 there, and below 7 in exact arithmetic): that
  operation is the parameter \<open>floorMul\<close>.
\<close>

definition startOf :: "(int \<Rightarrow> position \<Rightarrow> int) \<Rightarrow> position \<Rightarrow> int \<Rightarrow> int" where
  "startOf floorMul p free =
     (if p \<le> 0 then 0 else if p \<ge> 1 then free else floorMul free p)"

text \<open>The body of the \<open>for\<close> loop of \<open>place\<close>: row \<open>y\<close> of the canvas.\<close>

definition placeRow ::
  "int \<Rightarrow> jsstring list \<Rightarrow> int \<Rightarrow> int \<Rightarrow> int \<Rightarrow> jsstring \<Rightarrow> int \<Rightarrow> error + jsstring" where
  "placeRow w contentLines contentWidth startX startY bg y =
     (if y \<ge> startY \<and> y < startY + int (length contentLines) then
        bindE (built (padRight (contentLines ! nat (y - startY)) contentWidth space)) (\<lambda>padded.
        bindE (repeat bg startX) (\<lambda>l.
        bindE (repeat bg (max 0 (w - startX - contentWidth))) (\<lambda>r.
        built (l @ padded @ r))))
      else repeat bg w)"

definition place ::
  "(int \<Rightarrow> position \<Rightarrow> int) \<Rightarrow> int \<Rightarrow> int \<Rightarrow> position \<Rightarrow> position \<Rightarrow> jsstring \<Rightarrow> jsstring
   \<Rightarrow> error + jsstring" where
  "place floorMul w h hPos vPos content bg =
     (let contentLines = splitNl content;
          contentWidth = int (maxLineWidth content);
          contentHeight = int (length contentLines);
          startX = startOf floorMul hPos (w - contentWidth);
          startY = startOf floorMul vPos (h - contentHeight)
      in case mapE (placeRow w contentLines contentWidth startX startY bg) [0..h - 1] of
           Inl e \<Rightarrow> Inl e
         | Inr result \<Rightarrow> built (joinNl result))"

definition getWidth :: "jsstring \<Rightarrow> nat" where
  "getWidth s = maxLineWidth s"

definition getHeight :: "jsstring \<Rightarrow> nat" where
  "getHeight s = length (splitNl s)"

section \<open>style.ts\<close>

definition CSI :: jsstring where
  "CSI = [0x1b, 0x5b]"

definition RESET :: jsstring where
  "RESET = [0x1b, 0x5b, 0x6d]"

text \<open>The options that the constructor sets when it is given none: \<open>style()\<close>.\<close>

definition style :: "'c StyleOptions" where
  "style = \<lparr>bold = False, italic = False, underline = False, strikethrough = False,
     blink = False, faint = False, reverse = False, foreground = None, background = None,
     width = 0, height = 0, maxWidth = 0, maxHeight = 0,
     alignHorizontal = 0, alignVertical = 0,
     paddingTop = 0, paddingRight = 0, paddingBottom = 0, paddingLeft = 0,
     marginTop = 0, marginRight = 0, marginBottom = 0, marginLeft = 0,
     marginBackground = None, border = NoBorder,
     borderTop = False, borderRight = False, borderBottom = False, borderLeft = False,
     borderForeground = None, borderBackground = None,
     inline = False, colorWhitespace = True, tabWidth = 4, transform = None\<rparr>"

text \<open>
  The methods of \<open>Style\<close> that take a number, and \<open>bold\<close>. Each returns a copy of the
  options with the fields changed; \<open>Style_width\<close> is the method \<open>width\<close>, and so on.
\<close>

definition Style_bold :: "bool \<Rightarrow> 'c StyleOptions \<Rightarrow> 'c StyleOptions" where
  "Style_bold enable opts = opts\<lparr>bold := enable\<rparr>"

definition Style_width :: "int \<Rightarrow> 'c StyleOptions \<Rightarrow> 'c StyleOptions" where
  "Style_width w opts = opts\<lparr>width := max 0 w\<rparr>"

definition Style_height :: "int \<Rightarrow> 'c StyleOptions \<Rightarrow> 'c StyleOptions" where
  "Style_height h opts = opts\<lparr>height := max 0 h\<rparr>"

definition Style_maxWidth :: "int \<Rightarrow> 'c StyleOptions \<Rightarrow> 'c StyleOptions" where
  "Style_maxWidth w opts = opts\<lparr>maxWidth := max 0 w\<rparr>"

definition Style_maxHeight :: "int \<Rightarrow> 'c StyleOptions \<Rightarrow> 'c StyleOptions" where
  "Style_maxHeight h opts = opts\<lparr>maxHeight := max 0 h\<rparr>"

definition Style_padding ::
  "int \<Rightarrow> int option \<Rightarrow> int option \<Rightarrow> int option \<Rightarrow> 'c StyleOptions \<Rightarrow> 'c StyleOptions" where
  "Style_padding t r b l opts =
     (case r of
        None \<Rightarrow> opts\<lparr>paddingTop := t, paddingRight := t, paddingBottom := t, paddingLeft := t\<rparr>
      | Some rv \<Rightarrow>
          (case b of
             None \<Rightarrow> opts\<lparr>paddingTop := t, paddingBottom := t, paddingRight := rv,
                           paddingLeft := rv\<rparr>
           | Some bv \<Rightarrow> opts\<lparr>paddingTop := t, paddingRight := rv, paddingBottom := bv,
                           paddingLeft := (case l of None \<Rightarrow> rv | Some lv \<Rightarrow> lv)\<rparr>))"

definition Style_paddingTop :: "int \<Rightarrow> 'c StyleOptions \<Rightarrow> 'c StyleOptions" where
  "Style_paddingTop n opts = opts\<lparr>paddingTop := n\<rparr>"

definition Style_paddingRight :: "int \<Rightarrow> 'c StyleOptions \<Rightarrow> 'c StyleOptions" where
  "Style_paddingRight n opts = opts\<lparr>paddingRight := n\<rparr>"

definition Style_paddingBottom :: "int \<Rightarrow> 'c StyleOptions \<Rightarrow> 'c StyleOptions" where
  "Style_paddingBottom n opts = opts\<lparr>paddingBottom := n\<rparr>"

definition Style_paddingLeft :: "int \<Rightarrow> 'c StyleOptions \<Rightarrow> 'c StyleOptions" where
  "Style_paddingLeft n opts = opts\<lparr>paddingLeft := n\<rparr>"

definition Style_margin ::
  "int \<Rightarrow> int option \<Rightarrow> int option \<Rightarrow> int option \<Rightarrow> 'c StyleOptions \<Rightarrow> 'c StyleOptions" where
  "Style_margin t r b l opts =
     (case r of
        None \<Rightarrow> opts\<lparr>marginTop := t, marginRight := t, marginBottom := t, marginLeft := t\<rparr>
      | Some rv \<Rightarrow>
          (case b of
             None \<Rightarrow> opts\<lparr>marginTop := t, marginBottom := t, marginRight := rv,
                           marginLeft := rv\<rparr>
           | Some bv \<Rightarrow> opts\<lparr>marginTop := t, marginRight := rv, marginBottom := bv,
                           marginLeft := (case l of None \<Rightarrow> rv | Some lv \<Rightarrow> lv)\<rparr>))"

definition Style_marginTop :: "int \<Rightarrow> 'c StyleOptions \<Rightarrow> 'c StyleOptions" where
  "Style_marginTop n opts = opts\<lparr>marginTop := n\<rparr>"

definition Style_marginRight :: "int \<Rightarrow> 'c StyleOptions \<Rightarrow> 'c StyleOptions" where
  "Style_marginRight n opts = opts\<lparr>marginRight := n\<rparr>"

definition Style_marginBottom :: "int \<Rightarrow> 'c StyleOptions \<Rightarrow> 'c StyleOptions" where
  "Style_marginBottom n opts = opts\<lparr>marginBottom := n\<rparr>"

definition Style_marginLeft :: "int \<Rightarrow> 'c StyleOptions \<Rightarrow> 'c StyleOptions" where
  "Style_marginLeft n opts = opts\<lparr>marginLeft := n\<rparr>"

definition Style_tabWidth :: "int \<Rightarrow> 'c StyleOptions \<Rightarrow> 'c StyleOptions" where
  "Style_tabWidth n opts = opts\<lparr>tabWidth := n\<rparr>"

text \<open>\<open>parts.join(sep)\<close>.\<close>

fun joinSep :: "jsstring \<Rightarrow> jsstring list \<Rightarrow> jsstring" where
  "joinSep sep [] = []"
| "joinSep sep [l] = l"
| "joinSep sep (l # m # ls) = l @ sep @ joinSep sep (m # ls)"

text \<open>\<open>str.replace(/\t/g, by)\<close>.\<close>

definition replaceTabs :: "jsstring \<Rightarrow> jsstring \<Rightarrow> jsstring" where
  "replaceTabs by s = concat (map (\<lambda>c. if c = 0x09 then by else [c]) s)"

text \<open>\<open>str.replace(/\r\n/g, '\n')\<close>.\<close>

fun replaceCrLf :: "jsstring \<Rightarrow> jsstring" where
  "replaceCrLf [] = []"
| "replaceCrLf [c] = [c]"
| "replaceCrLf (c # d # cs) =
     (if c = 0x0d \<and> d = 0x0a then 0x0a # replaceCrLf cs else c # replaceCrLf (d # cs))"

definition buildStyleSequence :: "('c \<Rightarrow> bool \<Rightarrow> jsstring) \<Rightarrow> 'c StyleOptions \<Rightarrow> jsstring" where
  "buildStyleSequence colorToSequence opts =
     (let parts = (if bold opts then [[0x31]] else [])
                  @ (if faint opts then [[0x32]] else [])
                  @ (if italic opts then [[0x33]] else [])
                  @ (if underline opts then [[0x34]] else [])
                  @ (if blink opts then [[0x35]] else [])
                  @ (if reverse opts then [[0x37]] else [])
                  @ (if strikethrough opts then [[0x39]] else []);
          result = (if length parts > 0 then CSI @ joinSep [0x3b] parts @ [0x6d] else []);
          result = (case foreground opts of
                      None \<Rightarrow> result | Some c \<Rightarrow> result @ colorToSequence c True)
      in case background opts of
           None \<Rightarrow> result | Some c \<Rightarrow> result @ colorToSequence c False)"

definition buildWhitespaceSequence ::
  "('c \<Rightarrow> bool \<Rightarrow> jsstring) \<Rightarrow> 'c StyleOptions \<Rightarrow> jsstring" where
  "buildWhitespaceSequence colorToSequence opts =
     (let result = (if reverse opts then CSI @ [0x37, 0x6d] else [])
      in case background opts of
           None \<Rightarrow> result
         | Some c \<Rightarrow> if colorWhitespace opts then result @ colorToSequence c False else result)"

definition hasBorder :: "'c StyleOptions \<Rightarrow> bool" where
  "hasBorder opts \<longleftrightarrow> borderTop opts \<or> borderRight opts \<or> borderBottom opts \<or> borderLeft opts"

text \<open>
  In the functions of style.ts every \<open>repeat\<close> and every \<open>new Array\<close> is the call that may
  raise, and the string that a statement assigns or returns is \<open>built\<close>. A string built on the
  way is a part of that one, and too long only if that one is; it is \<open>built\<close> itself where a
  raise of another cause can come between the two, in \<open>applyHeight\<close> and \<open>applyMargin\<close>:
  the operands of \<open>+\<close> are evaluated and joined from left to right.
\<close>

text \<open>The function \<open>pad\<close> of \<open>applyWidth\<close>.\<close>

definition wsWrap :: "jsstring \<Rightarrow> jsstring \<Rightarrow> jsstring" where
  "wsWrap whitespaceSeq s = (if whitespaceSeq \<noteq> [] then whitespaceSeq @ s @ RESET else s)"

definition applyWidth :: "jsstring \<Rightarrow> int \<Rightarrow> position \<Rightarrow> jsstring \<Rightarrow> error + jsstring" where
  "applyWidth s w align whitespaceSeq =
     bindE (mapE (\<lambda>line.
        if int (stringWidth line) \<ge> w then Inr line
        else
          let diff = w - int (stringWidth line)
          in if align = 0
             then bindE (repeat space diff) (\<lambda>p. Inr (line @ wsWrap whitespaceSeq p))
             else if align = 1
             then bindE (repeat space diff) (\<lambda>p. Inr (wsWrap whitespaceSeq p @ line))
             else bindE (repeat space (diff div 2)) (\<lambda>l.
                  bindE (repeat space (diff - diff div 2)) (\<lambda>r.
                  Inr (wsWrap whitespaceSeq l @ line @ wsWrap whitespaceSeq r))))
       (splitNl s))
       (\<lambda>lines. built (joinNl lines))"

definition applyHeight :: "jsstring \<Rightarrow> int \<Rightarrow> position \<Rightarrow> jsstring \<Rightarrow> error + jsstring" where
  "applyHeight s h align whitespaceSeq =
     (if int (length (splitNl s)) \<ge> h then Inr s
      else
        bindE (repeat space (int (maxLineWidth s))) (\<lambda>sp.
        bindE (built (wsWrap whitespaceSeq sp)) (\<lambda>emptyLine.
        let diff = h - int (length (splitNl s))
        in if align = 0
           then bindE (built (s @ [0x0a])) (\<lambda>upper.
                bindE (newArrayFill diff emptyLine) (\<lambda>fill.
                built (upper @ joinNl fill)))
           else if align = 1
           then bindE (newArrayFill diff emptyLine) (\<lambda>fill.
                built (joinNl fill @ [0x0a] @ s))
           else bindE (newArrayFill (diff div 2) emptyLine) (\<lambda>above.
                bindE (built (joinNl above
                              @ (if diff div 2 > 0 then [0x0a] else []) @ s
                              @ (if diff - diff div 2 > 0 then [0x0a] else []))) (\<lambda>upper.
                bindE (newArrayFill (diff - diff div 2) emptyLine) (\<lambda>below.
                built (upper @ joinNl below)))))))"

definition applyBorder ::
  "('c \<Rightarrow> bool \<Rightarrow> jsstring) \<Rightarrow> 'c StyleOptions \<Rightarrow> jsstring \<Rightarrow> error + jsstring" where
  "applyBorder colorToSequence opts s =
     (let w = maxLineWidth s;
          borderFg = (case borderForeground opts of
                        None \<Rightarrow> [] | Some c \<Rightarrow> colorToSequence c True);
          borderBg = (case borderBackground opts of
                        None \<Rightarrow> [] | Some c \<Rightarrow> colorToSequence c False);
          borderStyle = borderFg @ borderBg;
          borderReset = (if borderStyle \<noteq> [] then RESET else [])
      in
        bindE (if borderTop opts
               then bindE (repeat (topEdge (border opts)) (int w)) (\<lambda>edge.
                    Inr [borderStyle
                         @ ((if borderLeft opts then topLeft (border opts) else [])
                            @ edge
                            @ (if borderRight opts then topRight (border opts) else []))
                         @ borderReset])
               else Inr []) (\<lambda>topRows.
        let rows = map (\<lambda>line.
                    (if borderLeft opts then borderStyle @ left (border opts) @ borderReset
                     else [])
                    @ padRight line (int w) space
                    @ (if borderRight opts then borderStyle @ right (border opts) @ borderReset
                       else []))
                   (splitNl s)
        in
        bindE (if borderBottom opts
               then bindE (repeat (bottom (border opts)) (int w)) (\<lambda>edge.
                    Inr [borderStyle
                         @ ((if borderLeft opts then bottomLeft (border opts) else [])
                            @ edge
                            @ (if borderRight opts then bottomRight (border opts) else []))
                         @ borderReset])
               else Inr []) (\<lambda>bottomRows.
        built (joinNl (topRows @ rows @ bottomRows)))))"

definition applyMargin ::
  "('c \<Rightarrow> bool \<Rightarrow> jsstring) \<Rightarrow> 'c StyleOptions \<Rightarrow> jsstring \<Rightarrow> error + jsstring" where
  "applyMargin colorToSequence opts s =
     (let w = maxLineWidth s;
          marginBg = (case marginBackground opts of
                        None \<Rightarrow> [] | Some c \<Rightarrow> colorToSequence c False);
          marginReset = (if marginBg \<noteq> [] then RESET else [])
      in
        bindE (if marginLeft opts > 0 \<or> marginRight opts > 0
               then bindE (repeat space (marginLeft opts)) (\<lambda>sp.
                    bindE (built (marginBg @ sp @ marginReset)) (\<lambda>l.
                    bindE (repeat space (marginRight opts)) (\<lambda>sp.
                    bindE (built (marginBg @ sp @ marginReset)) (\<lambda>r.
                    mapE (\<lambda>line. built (l @ line @ r)) (splitNl s)))))
               else Inr (splitNl s)) (\<lambda>result.
        bindE (if marginTop opts > 0
               then bindE (repeat space (int w + marginLeft opts + marginRight opts)) (\<lambda>sp.
                    bindE (built (marginBg @ sp @ marginReset)) (\<lambda>emptyLine.
                    bindE (newArrayFill (marginTop opts) emptyLine) (\<lambda>fill.
                    Inr (fill @ result))))
               else Inr result) (\<lambda>result.
        bindE (if marginBottom opts > 0
               then bindE (repeat space (int w + marginLeft opts + marginRight opts)) (\<lambda>sp.
                    bindE (built (marginBg @ sp @ marginReset)) (\<lambda>emptyLine.
                    bindE (newArrayFill (marginBottom opts) emptyLine) (\<lambda>fill.
                    Inr (result @ fill))))
               else Inr result) (\<lambda>result.
        built (joinNl result)))))"

text \<open>The strings that \<open>for (const char of line)\<close> visits: one code point each.\<close>

fun chars :: "jsstring \<Rightarrow> jsstring list" where
  "chars [] = []"
| "chars [c] = [[c]]"
| "chars (h # l # cs) =
     (if 0xD800 \<le> h \<and> h \<le> 0xDBFF \<and> 0xDC00 \<le> l \<and> l \<le> 0xDFFF
      then [h, l] # chars cs
      else [h] # chars (l # cs))"

text \<open>The \<open>for\<close> loop of the max-width stage of \<open>render\<close>; \<open>w\<close> is the width so far.\<close>

fun clampLoop :: "int \<Rightarrow> int \<Rightarrow> jsstring list \<Rightarrow> jsstring" where
  "clampLoop mw w [] = []"
| "clampLoop mw w (char # rest) =
     (if w + int (stringWidth char) > mw then []
      else char @ clampLoop mw (w + int (stringWidth char)) rest)"

definition clampLine :: "int \<Rightarrow> jsstring \<Rightarrow> jsstring" where
  "clampLine mw line =
     (if int (stringWidth line) > mw then clampLoop mw 0 (chars line) else line)"

text \<open>The block of \<open>render\<close> that converts the tabs.\<close>

definition convertTabs :: "'c StyleOptions \<Rightarrow> jsstring \<Rightarrow> error + jsstring" where
  "convertTabs opts s =
     (if tabWidth opts \<ge> 0
      then bindE (if tabWidth opts = 0 then Inr [] else repeat space (tabWidth opts)) (\<lambda>by.
           built (replaceTabs by s))
      else Inr s)"

text \<open>The block of \<open>render\<close> that applies the padding, inside \<open>if (!opts.inline)\<close>.\<close>

definition applyPadding :: "jsstring \<Rightarrow> 'c StyleOptions \<Rightarrow> jsstring \<Rightarrow> error + jsstring" where
  "applyPadding whitespaceSeq opts s =
     bindE (if paddingLeft opts > 0
            then bindE (repeat space (paddingLeft opts)) (\<lambda>sp.
                 built (joinNl (map (\<lambda>line. wsWrap whitespaceSeq sp @ line) (splitNl s))))
            else Inr s) (\<lambda>s.
     bindE (if paddingRight opts > 0
            then bindE (repeat space (paddingRight opts)) (\<lambda>sp.
                 built (joinNl (map (\<lambda>line. line @ wsWrap whitespaceSeq sp) (splitNl s))))
            else Inr s) (\<lambda>s.
     bindE (if paddingTop opts > 0
            then bindE (repeat [0x0a] (paddingTop opts)) (\<lambda>nl. built (nl @ s))
            else Inr s) (\<lambda>s.
     if paddingBottom opts > 0
     then bindE (repeat [0x0a] (paddingBottom opts)) (\<lambda>nl. built (s @ nl))
     else Inr s)))"

text \<open>
  \<open>render\<close>, in three parts: the stages up to the border (\<open>renderBox\<close>), \<open>applyMargin\<close>,
  and the two maximum constraints (\<open>maxConstraints\<close>), which only shorten the string.
\<close>

definition renderBox ::
  "('c \<Rightarrow> bool \<Rightarrow> jsstring) \<Rightarrow> 'c StyleOptions \<Rightarrow> jsstring list \<Rightarrow> error + jsstring" where
  "renderBox colorToSequence opts strs =
     bindE (built (joinSep space strs)) (\<lambda>s.
     bindE (convertTabs opts (case transform opts of None \<Rightarrow> s | Some fn \<Rightarrow> fn s)) (\<lambda>s.
     let s = replaceCrLf s;
         s = (if inline opts then filter (\<lambda>c. c \<noteq> 0x0a) s else s);
         styleSeq = buildStyleSequence colorToSequence opts;
         whitespaceSeq = (if colorWhitespace opts
                          then buildWhitespaceSequence colorToSequence opts else [])
     in
     bindE (if styleSeq \<noteq> []
            then built (joinNl (map (\<lambda>line. styleSeq @ line @ RESET) (splitNl s)))
            else Inr s) (\<lambda>s.
     bindE (if \<not> inline opts then applyPadding whitespaceSeq opts s else Inr s) (\<lambda>s.
     bindE (if width opts > 0
            then applyWidth s (width opts) (alignHorizontal opts) whitespaceSeq
            else Inr s) (\<lambda>s.
     bindE (if height opts > 0
            then applyHeight s (height opts) (alignVertical opts) whitespaceSeq
            else Inr s) (\<lambda>s.
     if \<not> inline opts \<and> hasBorder opts then applyBorder colorToSequence opts s
     else Inr s))))))"

definition maxConstraints :: "'c StyleOptions \<Rightarrow> jsstring \<Rightarrow> jsstring" where
  "maxConstraints opts s =
     (let s = (if maxWidth opts > 0
               then joinNl (map (clampLine (maxWidth opts)) (splitNl s)) else s)
      in if maxHeight opts > 0 \<and> int (length (splitNl s)) > maxHeight opts
         then joinNl (take (nat (maxHeight opts)) (splitNl s)) else s)"

definition render ::
  "('c \<Rightarrow> bool \<Rightarrow> jsstring) \<Rightarrow> 'c StyleOptions \<Rightarrow> jsstring list \<Rightarrow> error + jsstring" where
  "render colorToSequence opts strs =
     bindE (renderBox colorToSequence opts strs) (\<lambda>s.
     bindE (if \<not> inline opts then applyMargin colorToSequence opts s else Inr s) (\<lambda>s.
     Inr (maxConstraints opts s)))"

section \<open>Scanner states and well-formed input\<close>

text \<open>The state in which the loop of \<open>stripAnsi\<close> is after the input, started in \<open>st\<close>.\<close>

fun stripState :: "State \<Rightarrow> jsstring \<Rightarrow> State" where
  "stripState st [] = st"
| "stripState Ground (c # cs) =
     (if c = 0x1b then stripState Escape cs
      else if c = 0x9b then stripState CsiEntry cs
      else if c = 0x9d then stripState OscString cs
      else stripState Ground cs)"
| "stripState Escape (c # cs) =
     (if c = 0x5b then stripState CsiEntry cs
      else if c = 0x5d then stripState OscString cs
      else stripState Ground cs)"
| "stripState CsiEntry (c # cs) =
     (if isCsiParam c then stripState CsiParam cs
      else if isCsiIntermediate c then stripState CsiIntermediate cs
      else if isCsiFinal c then stripState Ground cs
      else stripState CsiEntry cs)"
| "stripState CsiParam (c # cs) =
     (if isCsiIntermediate c then stripState CsiIntermediate cs
      else if isCsiFinal c then stripState Ground cs
      else stripState CsiParam cs)"
| "stripState CsiIntermediate (c # cs) =
     (if isCsiFinal c then stripState Ground cs
      else stripState CsiIntermediate cs)"
| "stripState OscString (c # cs) =
     (if c = 0x07 \<or> c = 0x9c then stripState Ground cs
      else (case cs of
              [] \<Rightarrow> stripState OscString cs
            | d # ds \<Rightarrow> if c = 0x1b \<and> d = 0x5c then stripState Ground ds
                       else stripState OscString cs))"

text \<open>A line that does not end inside a control sequence.\<close>

definition closedLine :: "jsstring \<Rightarrow> bool" where
  "closedLine line \<longleftrightarrow> stripState Ground line = Ground"

text \<open>A line whose first visible code unit is a low surrogate.\<close>

definition startsLow :: "jsstring \<Rightarrow> bool" where
  "startsLow line =
     (case stripAnsi line of [] \<Rightarrow> False | c # cs \<Rightarrow> 0xDC00 \<le> c \<and> c \<le> 0xDFFF)"

text \<open>
  A block of closed lines in which the code unit \<open>0x9D\<close> does not occur.
\<close>

definition closedBlock :: "jsstring \<Rightarrow> bool" where
  "closedBlock s \<longleftrightarrow> 0x9d \<notin> set s \<and> list_all closedLine (splitNl s)"

text \<open>A block with a line that starts with a low surrogate.\<close>

definition lowStart :: "jsstring \<Rightarrow> bool" where
  "lowStart s \<longleftrightarrow> list_ex startsLow (splitNl s)"

text \<open>
  A string on which the scanner of \<open>truncate\<close> and the scanner of \<open>stripAnsi\<close> take the
  same steps: neither \<open>0x9C\<close> nor \<open>0x9D\<close> occurs, and every \<open>ESC\<close> that is not the last
  code unit is followed by a code unit in \<open>0x40..0x7E\<close>.
\<close>

fun wellEscaped :: "jsstring \<Rightarrow> bool" where
  "wellEscaped [] = True"
| "wellEscaped [c] = (c \<noteq> 0x9c \<and> c \<noteq> 0x9d)"
| "wellEscaped (c # d # cs) =
     (c \<noteq> 0x9c \<and> c \<noteq> 0x9d \<and> (c \<noteq> 0x1b \<or> (0x40 \<le> d \<and> d \<le> 0x7e))
      \<and> wellEscaped (d # cs))"

section \<open>Literals\<close>

text \<open>An ASCII literal as code units.\<close>

definition str :: "string \<Rightarrow> jsstring" where
  "str = map of_char"

section \<open>The scanner of the specification\<close>

text \<open>
  Following the specification's scanner (its section 4.1), from \<open>Ground\<close>: does the input
  open no \<open>Control\<close> segment? \<open>0x9B\<close> and \<open>0x9D\<close> open one; \<open>ESC\<close> opens one when
  followed by \<open>[\<close>, \<open>]\<close> or a byte in \<open>0x40..0x7E\<close>, and also as the last byte (an
  unterminated sequence is a \<open>Control\<close> segment); \<open>ESC\<close> followed by any other byte is
  literal text, both bytes \<open>Visible\<close>.
\<close>

fun spec_noControlRuns :: "jsstring \<Rightarrow> bool" where
  "spec_noControlRuns [] = True"
| "spec_noControlRuns [c] = (c \<noteq> 0x1b \<and> c \<noteq> 0x9b \<and> c \<noteq> 0x9d)"
| "spec_noControlRuns (c # d # cs) =
     (if c = 0x1b then
        (if d = 0x5b \<or> d = 0x5d \<or> (0x40 \<le> d \<and> d \<le> 0x5f) \<or> (0x60 \<le> d \<and> d \<le> 0x7e)
         then False else spec_noControlRuns cs)
      else if c = 0x9b \<or> c = 0x9d then False
      else spec_noControlRuns (d # cs))"

section \<open>Line counting\<close>

lemma splitNl_nonempty: "splitNl s \<noteq> []"
  by (induction s) (auto split: list.splits)

lemma splitNl_append_nl: "splitNl (x @ 0x0a # y) = splitNl x @ splitNl y"
  by (induction x) (auto split: list.splits simp: splitNl_nonempty)

lemma splitNl_no_nl: "0x0a \<notin> set l \<Longrightarrow> splitNl l = [l]"
  by (induction l) auto

lemma splitNl_joinNl:
  "ls \<noteq> [] \<Longrightarrow> \<forall>l\<in>set ls. 0x0a \<notin> set l \<Longrightarrow> splitNl (joinNl ls) = ls"
  by (induction ls rule: joinNl.induct) (auto simp: splitNl_append_nl splitNl_no_nl)

lemma splitNl_lines: "l \<in> set (splitNl s) \<Longrightarrow> 0x0a \<notin> set l"
  by (induction s arbitrary: l) (auto split: if_splits list.splits)

lemma joinNl_splitNl: "joinNl (splitNl s) = s"
proof (induction s)
  case Nil
  show ?case by simp
next
  case (Cons c cs)
  show ?case
  proof (cases "splitNl cs")
    case Nil
    then show ?thesis using splitNl_nonempty by blast
  next
    case (Cons l ls)
    then show ?thesis using Cons.IH by (cases ls) auto
  qed
qed

lemma set_rep_space: "set (rep n space) \<subseteq> {0x20}"
  by (induction n) (auto simp: rep_def space_def)

text \<open>
  The counts that \<open>joinHorizontal\<close> and \<open>joinVertical\<close> pass to \<open>new Array\<close> and to
  \<open>repeat\<close> are differences to a maximum, and never negative: no block is higher than
  \<open>maxHeight\<close>, no line wider than \<open>maxWidth\<close>.
\<close>

lemma foldr_max_ge: "x \<in> set xs \<Longrightarrow> x \<le> foldr max xs (0::nat)"
  by (induction xs) (auto simp: max_def)

lemma foldl_width_ge:
  "m \<le> foldl (\<lambda>mx line. if stringWidth line > mx then stringWidth line else mx) m ls"
proof (induction ls arbitrary: m)
  case Nil
  then show ?case by simp
next
  case (Cons l ls)
  show ?case
    using Cons [of "if stringWidth l > m then stringWidth l else m"] by (simp split: if_splits)
qed

lemma foldl_width_mem:
  "l \<in> set ls \<Longrightarrow>
   stringWidth l \<le> foldl (\<lambda>mx line. if stringWidth line > mx then stringWidth line else mx) m ls"
proof (induction ls arbitrary: m)
  case Nil
  then show ?case by simp
next
  case (Cons x xs)
  show ?case
  proof (cases "l = x")
    case True
    then show ?thesis
      using foldl_width_ge [of "if stringWidth x > m then stringWidth x else m" xs]
      by (simp split: if_splits)
  next
    case False
    with Cons.prems have "l \<in> set xs" by simp
    from Cons.IH [OF this] show ?thesis by simp
  qed
qed

lemma maxLineWidth_ge_line:
  "line \<in> set (splitNl s) \<Longrightarrow> stringWidth line \<le> maxLineWidth s"
  by (simp add: maxLineWidth_def foldl_width_mem)

lemma joinHorizontal_diff_nonneg:
  "s \<in> set strs \<Longrightarrow> length (splitNl s) \<le> foldr max (map length (map splitNl strs)) 0"
  by (rule foldr_max_ge) simp

lemma joinVertical_diff_nonneg:
  "s \<in> set strs \<Longrightarrow> line \<in> set (splitNl s) \<Longrightarrow>
   stringWidth line \<le> foldr max (map maxLineWidth strs) 0"
proof -
  assume a: "s \<in> set strs" "line \<in> set (splitNl s)"
  from a(1) have "maxLineWidth s \<le> foldr max (map maxLineWidth strs) 0"
    by (intro foldr_max_ge) simp
  with maxLineWidth_ge_line [OF a(2)] show ?thesis by simp
qed

text \<open>
  C7: \<open>lineCount\<close> of the empty string is 0 and \<open>getHeight\<close> of the empty string is 1, so the
  two are distinct operations; on every non-empty string they return the same number.
\<close>

theorem lineCount_getHeight:
  "lineCount [] = 0 \<and> getHeight [] = 1 \<and> lineCount [] \<noteq> getHeight []
   \<and> (\<forall>s. s \<noteq> [] \<longrightarrow> lineCount s = getHeight s)"
  by (simp add: lineCount_def getHeight_def)

theorem lineCount_getHeight_witness:
  "str ''a'' @ [0x0a] @ str ''b'' \<noteq> []
   \<and> lineCount (str ''a'' @ [0x0a] @ str ''b'') = getHeight (str ''a'' @ [0x0a] @ str ''b'')
   \<and> getHeight (str ''a'' @ [0x0a] @ str ''b'') = 2"
  using lineCount_getHeight by (simp add: getHeight_def str_def)

section \<open>Stripping\<close>

lemma stripLoop_fixed: "stripLoop Ground (stripLoop st s) = stripLoop st s"
  by (induction st s rule: stripLoop.induct) (auto split: list.splits)

lemma stripLoop_noControl: "spec_noControlRuns s \<Longrightarrow> stripLoop Ground s = s"
  by (induction s rule: spec_noControlRuns.induct) (auto split: if_splits)

text \<open>
  C8: \<open>stripAnsi\<close> is idempotent, and it returns unchanged every string in which the
  specification's scanner finds no control run.
\<close>

theorem stripAnsi_idempotent_identity:
  "stripAnsi (stripAnsi s) = stripAnsi s \<and> (spec_noControlRuns s \<longrightarrow> stripAnsi s = s)"
  by (simp add: stripAnsi_def stripLoop_fixed stripLoop_noControl)

theorem stripAnsi_idempotent_identity_witness:
  "spec_noControlRuns ([0x1b, 0x31] @ str ''hello'')
   \<and> stripAnsi ([0x1b, 0x31] @ str ''hello'') = [0x1b, 0x31] @ str ''hello''"
  using stripAnsi_idempotent_identity [of "[0x1b, 0x31] @ str ''hello''"]
  by (simp add: str_def)

section \<open>The two scanners\<close>

text \<open>
  C3: the claim is that \<open>stripAnsi\<close> removes an OSC run that \<open>0x9D\<close> opens and BEL closes, and
  that \<open>truncate\<close> passes an OSC run that \<open>0x9C\<close> closes through whole and goes on with the text
  after it. The code does neither. \<open>stripAnsi\<close> returns the string \<open>0x9D 0;t BEL hello\<close>
  unchanged, since its first test looks for \<open>ESC\<close> and \<open>0x9B\<close> only; and \<open>truncate\<close> does
  not end an OSC run at \<open>0x9C\<close>: of \<open>ESC ]0;t 0x9C hello world\<close> cut to 5 columns it keeps
  nothing, neither the run nor a letter of the text.
\<close>

theorem scanners_miss_c1_bytes:
  "stripAnsi ([0x9d] @ str ''0;t'' @ [0x07] @ str ''hello'')
     = [0x9d] @ str ''0;t'' @ [0x07] @ str ''hello''
   \<and> stripLoop Ground ([0x9d] @ str ''0;t'' @ [0x07] @ str ''hello'') = str ''hello''
   \<and> stripAnsi ([0x1b] @ str '']0;t'' @ [0x9c] @ str ''hello world'') = str ''hello world''
   \<and> truncate ([0x1b] @ str '']0;t'' @ [0x9c] @ str ''hello world'') 5 [] = []"
  by (simp add: stripAnsi_def truncate_def stringWidth_def sumWidths_def codePointWidth_def str_def)

section \<open>Placing\<close>

text \<open>
  When the canvas is not negative, \<open>startX\<close> is not negative and the fillers are not too
  long, \<open>place\<close> builds the rows \<open>0\<close> to \<open>h - 1\<close>: a row of the content between the left and
  the right filler, or a row of background.
\<close>

lemma mapE_Inr: "(\<And>x. x \<in> set xs \<Longrightarrow> f x = Inr (g x)) \<Longrightarrow> mapE f xs = Inr (map g xs)"
  by (induction xs) auto

lemma mapE_built:
  "(\<And>x. x \<in> set xs \<Longrightarrow> f x = built (g x)) \<Longrightarrow>
   mapE f xs = (if \<exists>x \<in> set xs. length (g x) > maxStringLength
                then Inl (RangeError InvalidStringLength) else Inr (map g xs))"
  by (induction xs) (auto simp: built_def)

lemma length_joinNl_ge: "x \<in> set xs \<Longrightarrow> length x \<le> length (joinNl xs)"
  by (induction xs rule: joinNl.induct) auto

lemma length_joinNl_map_ge:
  "y \<in> set ys \<Longrightarrow> length (g y) \<le> length (joinNl (map g ys))"
  by (intro length_joinNl_ge) simp

lemma repeat_Inr:
  "0 \<le> n \<Longrightarrow> n \<le> m \<Longrightarrow> nat m * length s \<le> maxStringLength \<Longrightarrow>
   repeat s n = Inr (rep (nat n) s)"
proof -
  assume n: "0 \<le> n" "n \<le> m" and m: "nat m * length s \<le> maxStringLength"
  from n have "nat n * length s \<le> nat m * length s" by (intro mult_le_mono1) simp
  from this m have "nat n * length s \<le> maxStringLength" by (rule le_trans)
  with n show ?thesis by (simp add: repeat_def)
qed

lemma built_rep:
  "nat n * length s \<le> maxStringLength \<Longrightarrow> Inr (rep (nat n) s) = built (rep (nat n) s)"
  by (simp add: built_def rep_def length_concat sum_list_replicate)

lemma place_rows:
  assumes w: "0 \<le> w"
    and sx: "0 \<le> startOf floorMul hPos (w - int (maxLineWidth content))"
    and lim: "nat (max w (startOf floorMul hPos (w - int (maxLineWidth content)))) * length bg
              \<le> maxStringLength"
  shows "place floorMul w h hPos vPos content bg =
     built (joinNl (map (\<lambda>y.
       if startOf floorMul vPos (h - int (length (splitNl content))) \<le> y
          \<and> y < startOf floorMul vPos (h - int (length (splitNl content)))
                + int (length (splitNl content))
       then rep (nat (startOf floorMul hPos (w - int (maxLineWidth content)))) bg
            @ padRight (splitNl content
                        ! nat (y - startOf floorMul vPos (h - int (length (splitNl content)))))
                (int (maxLineWidth content)) space
            @ rep (nat (max 0 (w - startOf floorMul hPos (w - int (maxLineWidth content))
                               - int (maxLineWidth content)))) bg
       else rep (nat w) bg) [0..h - 1]))"
proof -
  let ?sx = "startOf floorMul hPos (w - int (maxLineWidth content))"
  let ?sy = "startOf floorMul vPos (h - int (length (splitNl content)))"
  let ?g = "\<lambda>y.
       if ?sy \<le> y \<and> y < ?sy + int (length (splitNl content))
       then rep (nat ?sx) bg
            @ padRight (splitNl content ! nat (y - ?sy)) (int (maxLineWidth content)) space
            @ rep (nat (max 0 (w - ?sx - int (maxLineWidth content)))) bg
       else rep (nat w) bg"
  have l: "repeat bg ?sx = Inr (rep (nat ?sx) bg)"
    using sx lim by (intro repeat_Inr [where m = "max w ?sx"]) simp_all
  have r: "repeat bg (max 0 (w - ?sx - int (maxLineWidth content)))
           = Inr (rep (nat (max 0 (w - ?sx - int (maxLineWidth content)))) bg)"
    using sx w lim by (intro repeat_Inr [where m = "max w ?sx"]) auto
  have "nat w * length bg \<le> nat (max w ?sx) * length bg" by (intro mult_le_mono1) simp
  from this lim have "nat w * length bg \<le> maxStringLength" by (rule le_trans)
  then have b: "repeat bg w = built (rep (nat w) bg)"
    using w built_rep [of w bg] by (simp add: repeat_def)
  have "placeRow w (splitNl content) (int (maxLineWidth content)) ?sx ?sy bg y = built (?g y)"
    for y
    by (simp add: placeRow_def l r b bindE_def built_def)
  then have m: "mapE (placeRow w (splitNl content) (int (maxLineWidth content)) ?sx ?sy bg)
               [0..h - 1]
     = (if \<exists>y \<in> set [0..h - 1]. length (?g y) > maxStringLength
        then Inl (RangeError InvalidStringLength) else Inr (map ?g [0..h - 1]))"
    by (intro mapE_built) simp
  show ?thesis
  proof (cases "\<exists>y \<in> set [0..h - 1]. length (?g y) > maxStringLength")
    case True
    then obtain y where y: "y \<in> set [0..h - 1]" "length (?g y) > maxStringLength" by blast
    from length_joinNl_map_ge [OF y(1), of ?g] y(2)
    have "length (joinNl (map ?g [0..h - 1])) > maxStringLength" by linarith
    then have "built (joinNl (map ?g [0..h - 1])) = Inl (RangeError InvalidStringLength)"
      by (simp only: built_def if_True)
    moreover have "place floorMul w h hPos vPos content bg = Inl (RangeError InvalidStringLength)"
      using m True by (simp add: place_def Let_def del: set_upto)
    ultimately show ?thesis by simp
  next
    case False
    with m show ?thesis by (simp add: place_def Let_def del: set_upto)
  qed
qed

text \<open>
  C5: the claim is that \<open>place\<close> returns \<open>height\<close> rows for every content. When the content
  is wider than the canvas and \<open>hPos\<close> is above 0, \<open>startX\<close> is negative and
  \<open>background.repeat(startX)\<close> raises: the right-hand filler has its \<open>Math.max(0, ...)\<close>,
  the left-hand one has none.
\<close>

theorem place_wide_content_raises:
  "place floorMul 1 1 1 0 (str ''hello'') space = Inl (RangeError InvalidCount)"
  by (simp add: place_def placeRow_def startOf_def repeat_def bindE_def built_def
      maxStringLength_def padRight_def maxLineWidth_def stringWidth_def sumWidths_def
      stripAnsi_def codePointWidth_def str_def upto.simps)

section \<open>What truncate keeps\<close>

text \<open>
  What the loop of \<open>truncate\<close> appends is the pending buffer followed by a prefix of the
  rest of the input, and the loop run again on that prefix appends the same: the prefix
  ends outside any control run, so no buffer is pending and dropped at its end.
\<close>

lemma kept_stay:
  assumes step: "\<And>x. truncLoop tw st buf w (c # x) = truncLoop tw st' (buf @ [c]) w x"
    and ih: "truncLoop tw st' (buf @ [c]) w cs \<noteq> [] \<Longrightarrow>
       \<exists>r1. truncLoop tw st' (buf @ [c]) w cs = (buf @ [c]) @ r1 \<and> prefix r1 cs
            \<and> truncLoop tw st' (buf @ [c]) w r1 = (buf @ [c]) @ r1"
    and ne: "truncLoop tw st buf w (c # cs) \<noteq> []"
  shows "\<exists>r1. truncLoop tw st buf w (c # cs) = buf @ r1 \<and> prefix r1 (c # cs)
            \<and> truncLoop tw st buf w r1 = buf @ r1"
proof -
  from ne step have "truncLoop tw st' (buf @ [c]) w cs \<noteq> []" by simp
  from ih [OF this] obtain r1 where
    r1: "truncLoop tw st' (buf @ [c]) w cs = (buf @ [c]) @ r1" "prefix r1 cs"
        "truncLoop tw st' (buf @ [c]) w r1 = (buf @ [c]) @ r1"
    by blast
  have "truncLoop tw st buf w (c # cs) = buf @ (c # r1)" using r1(1) step by simp
  moreover have "prefix (c # r1) (c # cs)" using r1(2) by simp
  moreover have "truncLoop tw st buf w (c # r1) = buf @ (c # r1)" using r1(3) step by simp
  ultimately show ?thesis by blast
qed

lemma kept_flush:
  assumes step: "\<And>x. truncLoop tw st buf w (c # x) = (buf @ [c]) @ truncLoop tw Ground [] w' x"
    and ih: "truncLoop tw Ground [] w' cs \<noteq> [] \<Longrightarrow>
       \<exists>r1. truncLoop tw Ground [] w' cs = [] @ r1 \<and> prefix r1 cs
            \<and> truncLoop tw Ground [] w' r1 = [] @ r1"
  shows "\<exists>r1. truncLoop tw st buf w (c # cs) = buf @ r1 \<and> prefix r1 (c # cs)
            \<and> truncLoop tw st buf w r1 = buf @ r1"
proof -
  let ?r = "truncLoop tw Ground [] w' cs"
  have g: "prefix ?r cs \<and> truncLoop tw Ground [] w' ?r = ?r"
  proof (cases "?r = []")
    case True
    then show ?thesis by simp
  next
    case False
    from ih [OF this] show ?thesis by auto
  qed
  have "truncLoop tw st buf w (c # cs) = buf @ (c # ?r)" using step by simp
  moreover have "prefix (c # ?r) (c # cs)" using g by simp
  moreover have "truncLoop tw st buf w (c # ?r) = buf @ (c # ?r)" using g step by simp
  ultimately show ?thesis by blast
qed

lemma truncLoop_kept:
  "(st = Ground \<longrightarrow> buf = []) \<Longrightarrow> truncLoop tw st buf w cs \<noteq> [] \<Longrightarrow>
   \<exists>r1. truncLoop tw st buf w cs = buf @ r1 \<and> prefix r1 cs
        \<and> truncLoop tw st buf w r1 = buf @ r1"
proof (induction tw st buf w cs rule: truncLoop.induct)
  case (1 tw st buf w)
  then show ?case by simp
next
  case (2 tw buf w c cs)
  then have buf: "buf = []" by simp
  consider (esc) "c = 0x1b" | (csi) "c \<noteq> 0x1b" "c = 0x9b"
    | (cut) "c \<noteq> 0x1b" "c \<noteq> 0x9b" "w + int (codePointWidth c) > tw"
    | (fit) "c \<noteq> 0x1b" "c \<noteq> 0x9b" "\<not> w + int (codePointWidth c) > tw"
    by blast
  then show ?case
  proof cases
    case esc
    show ?thesis
      unfolding buf
      apply (rule kept_stay [where st' = Escape])
      using esc "2.IH"(1) "2.prems" buf by auto
  next
    case csi
    show ?thesis
      unfolding buf
      apply (rule kept_stay [where st' = CsiEntry])
      using csi "2.IH"(2) "2.prems" buf by auto
  next
    case cut
    then show ?thesis using "2.prems" by simp
  next
    case fit
    show ?thesis
      unfolding buf
      apply (rule kept_flush [where w' = "w + int (codePointWidth c)"])
      using fit "2.IH"(3) buf by auto
  qed
next
  case (3 tw buf w c cs)
  consider (csi) "c = 0x5b" | (osc) "c \<noteq> 0x5b" "c = 0x5d" | (other) "c \<noteq> 0x5b" "c \<noteq> 0x5d"
    by blast
  then show ?case
  proof cases
    case csi
    show ?thesis
      apply (rule kept_stay [where st' = CsiEntry])
      using csi "3.IH"(1) "3.prems" by auto
  next
    case osc
    show ?thesis
      apply (rule kept_stay [where st' = OscString])
      using osc "3.IH"(2) "3.prems" by auto
  next
    case other
    show ?thesis
      apply (rule kept_flush [where w' = w])
      using other "3.IH"(3) by auto
  qed
next
  case (4 tw buf w c cs)
  consider (fin) "isCsiFinal c" | (par) "\<not> isCsiFinal c" "isCsiParam c"
    | (int) "\<not> isCsiFinal c" "\<not> isCsiParam c" "isCsiIntermediate c"
    | (stay) "\<not> isCsiFinal c" "\<not> isCsiParam c" "\<not> isCsiIntermediate c"
    by blast
  then show ?case
  proof cases
    case fin
    show ?thesis
      apply (rule kept_flush [where w' = w])
      using fin "4.IH"(1) by auto
  next
    case par
    show ?thesis
      apply (rule kept_stay [where st' = CsiParam])
      using par "4.IH"(2) "4.prems" by auto
  next
    case int
    show ?thesis
      apply (rule kept_stay [where st' = CsiIntermediate])
      using int "4.IH"(3) "4.prems" by auto
  next
    case stay
    show ?thesis
      apply (rule kept_stay [where st' = CsiEntry])
      using stay "4.IH"(4) "4.prems" by auto
  qed
next
  case (5 tw buf w c cs)
  consider (fin) "isCsiFinal c" | (par) "\<not> isCsiFinal c" "isCsiParam c"
    | (int) "\<not> isCsiFinal c" "\<not> isCsiParam c" "isCsiIntermediate c"
    | (stay) "\<not> isCsiFinal c" "\<not> isCsiParam c" "\<not> isCsiIntermediate c"
    by blast
  then show ?case
  proof cases
    case fin
    show ?thesis
      apply (rule kept_flush [where w' = w])
      using fin "5.IH"(1) by auto
  next
    case par
    show ?thesis
      apply (rule kept_stay [where st' = CsiParam])
      using par "5.IH"(2) "5.prems" by auto
  next
    case int
    show ?thesis
      apply (rule kept_stay [where st' = CsiIntermediate])
      using int "5.IH"(3) "5.prems" by auto
  next
    case stay
    show ?thesis
      apply (rule kept_stay [where st' = CsiParam])
      using stay "5.IH"(4) "5.prems" by auto
  qed
next
  case (6 tw buf w c cs)
  show ?case
  proof (cases "isCsiFinal c")
    case True
    show ?thesis
      apply (rule kept_flush [where w' = w])
      using True "6.IH"(1) by auto
  next
    case False
    show ?thesis
      apply (rule kept_stay [where st' = CsiIntermediate])
      using False "6.IH"(2) "6.prems" by auto
  qed
next
  case (7 tw buf w c cs)
  let ?r = "truncLoop tw OscString buf w (c # cs)"
  consider (bel) "c = 0x07"
    | (st) d ds where "c \<noteq> 0x07" "cs = d # ds" "c = 0x1b" "d = 0x5c"
    | (stay) "c \<noteq> 0x07" "cs = [] \<or> \<not> (c = 0x1b \<and> hd cs = 0x5c)"
    by (cases cs) auto
  then show ?case
  proof cases
    case bel
    show ?thesis
      apply (rule kept_flush [where w' = w])
      using bel "7.IH"(1) by auto
  next
    case st
    let ?g = "truncLoop tw Ground [] w ds"
    have g: "prefix ?g ds \<and> truncLoop tw Ground [] w ?g = ?g"
    proof (cases "?g = []")
      case True
      then show ?thesis by simp
    next
      case False
      from "7.IH"(3) [OF _ st(2)] st False show ?thesis by auto
    qed
    have "?r = buf @ (c # d # ?g)" using st by simp
    moreover have "prefix (c # d # ?g) (c # cs)" using g st by simp
    moreover have "truncLoop tw OscString buf w (c # d # ?g) = buf @ (c # d # ?g)"
      using g st by simp
    ultimately show ?thesis by blast
  next
    case stay
    have eq: "?r = truncLoop tw OscString (buf @ [c]) w cs"
      using stay by (cases cs) auto
    with "7.prems" have ne: "truncLoop tw OscString (buf @ [c]) w cs \<noteq> []" by simp
    have "\<exists>r1. truncLoop tw OscString (buf @ [c]) w cs = (buf @ [c]) @ r1 \<and> prefix r1 cs
            \<and> truncLoop tw OscString (buf @ [c]) w r1 = (buf @ [c]) @ r1"
    proof (cases cs)
      case Nil
      with ne show ?thesis by simp
    next
      case (Cons d ds)
      from "7.IH"(4) [OF _ Cons] stay Cons ne show ?thesis by auto
    qed
    then obtain r1 where
      r1: "truncLoop tw OscString (buf @ [c]) w cs = (buf @ [c]) @ r1" "prefix r1 cs"
          "truncLoop tw OscString (buf @ [c]) w r1 = (buf @ [c]) @ r1"
      by blast
    from r1(3) have "r1 \<noteq> []" by auto
    with r1(2) have hd: "cs \<noteq> [] \<and> hd r1 = hd cs" by (cases r1; cases cs) auto
    have "truncLoop tw OscString buf w (c # r1) = truncLoop tw OscString (buf @ [c]) w r1"
      using stay hd \<open>r1 \<noteq> []\<close> by (cases r1) auto
    then have "truncLoop tw OscString buf w (c # r1) = buf @ (c # r1)" using r1(3) by simp
    moreover have "?r = buf @ (c # r1)" using eq r1(1) by simp
    moreover have "prefix (c # r1) (c # cs)" using r1(2) by simp
    ultimately show ?thesis by blast
  qed
qed


text \<open>On a prefix of the input the loop appends a prefix of what it appends on the input.\<close>

lemma truncLoop_mono:
  "prefix p s \<Longrightarrow> prefix (truncLoop tw st buf w p) (truncLoop tw st buf w s)"
proof (induction tw st buf w p arbitrary: s rule: truncLoop.induct)
  case (1 tw st buf w)
  then show ?case by simp
next
  case (2 tw buf w c cs)
  from "2.prems" obtain s' where s: "s = c # s'" "prefix cs s'" by (cases s) auto
  show ?case using "2.IH" s by simp
next
  case (3 tw buf w c cs)
  from "3.prems" obtain s' where s: "s = c # s'" "prefix cs s'" by (cases s) auto
  show ?case using "3.IH" s by simp
next
  case (4 tw buf w c cs)
  from "4.prems" obtain s' where s: "s = c # s'" "prefix cs s'" by (cases s) auto
  show ?case using "4.IH" s by simp
next
  case (5 tw buf w c cs)
  from "5.prems" obtain s' where s: "s = c # s'" "prefix cs s'" by (cases s) auto
  show ?case using "5.IH" s by simp
next
  case (6 tw buf w c cs)
  from "6.prems" obtain s' where s: "s = c # s'" "prefix cs s'" by (cases s) auto
  show ?case using "6.IH" s by simp
next
  case (7 tw buf w c cs)
  from "7.prems" obtain s' where s: "s = c # s'" "prefix cs s'" by (cases s) auto
  consider (bel) "c = 0x07"
    | (nil) "c \<noteq> 0x07" "cs = []"
    | (st) d ds where "c \<noteq> 0x07" "cs = d # ds" "c = 0x1b \<and> d = 0x5c"
    | (stay) d ds where "c \<noteq> 0x07" "cs = d # ds" "\<not> (c = 0x1b \<and> d = 0x5c)"
    by (cases cs) auto
  then show ?case
  proof cases
    case bel
    from "7.IH"(1) [OF bel s(2)] bel s(1) show ?thesis by simp
  next
    case nil
    then show ?thesis by simp
  next
    case st
    from s(2) st(2) obtain s'' where s'': "s' = d # s''" "prefix ds s''" by (cases s') auto
    from "7.IH"(3) [OF st s''(2)] st s(1) s''(1) show ?thesis by simp
  next
    case stay
    from s(2) stay(2) obtain s'' where s'': "s' = d # s''" by (cases s') auto
    have e: "truncLoop tw OscString buf w (c # cs) = truncLoop tw OscString (buf @ [c]) w cs"
      "truncLoop tw OscString buf w (c # s') = truncLoop tw OscString (buf @ [c]) w s'"
      using stay s'' by auto
    from "7.IH"(4) [OF stay s(2)] show ?thesis unfolding s(1) e .
  qed
qed

lemma truncate_cut_form:
  assumes "0 < mw" and "mw < int (stringWidth s)" and "int (stringWidth tail) < mw"
  shows "\<exists>kept rest. s = kept @ rest \<and> truncate s mw tail = kept @ tail
           \<and> truncLoop (mw - int (stringWidth tail)) Ground [] 0 kept = kept
           \<and> (\<forall>p. prefix p s \<and> truncLoop (mw - int (stringWidth tail)) Ground [] 0 p = p
                 \<longrightarrow> prefix p kept)"
proof -
  let ?tw = "mw - int (stringWidth tail)"
  let ?kept = "truncLoop ?tw Ground [] 0 s"
  have t: "truncate s mw tail = ?kept @ tail"
    using assms by (simp add: truncate_def)
  have k: "prefix ?kept s \<and> truncLoop ?tw Ground [] 0 ?kept = ?kept"
  proof (cases "?kept = []")
    case True
    then show ?thesis by simp
  next
    case False
    from truncLoop_kept [OF _ False] show ?thesis by auto
  qed
  have m: "prefix p ?kept" if "prefix p s" "truncLoop ?tw Ground [] 0 p = p" for p
    using truncLoop_mono [OF that(1), of ?tw Ground "[]" 0] that(2) by simp
  from k obtain rest where "s = ?kept @ rest" by (auto simp: prefix_def)
  with t k m show ?thesis by blast
qed

text \<open>
  C9: when \<open>truncate\<close> cuts (the string is wider than \<open>maxWidth\<close> and the tail is narrower),
  the result is a prefix \<open>kept\<close> of the string followed at once by the tail, and nothing of
  the string after that prefix is in it, no control run either. \<open>kept\<close> ends outside any
  control run of the loop's scanner (the loop run on \<open>kept\<close> alone returns it whole), and it
  is the longest prefix of the string that the loop returns whole.
\<close>

theorem truncate_drops_after_cut:
  assumes "0 < mw" and "int (stringWidth s) > mw"
    and "int (stringWidth tail) < mw"
  shows "\<exists>kept rest. s = kept @ rest \<and> truncate s mw tail = kept @ tail
           \<and> truncLoop (mw - int (stringWidth tail)) Ground [] 0 kept = kept
           \<and> (\<forall>p. prefix p s \<and> truncLoop (mw - int (stringWidth tail)) Ground [] 0 p = p
                 \<longrightarrow> prefix p kept)"
  using assms by (rule truncate_cut_form)

theorem truncate_drops_after_cut_witness:
  "(0::int) < 8
   \<and> int (stringWidth ([0x1b] @ str ''[31mhello world'' @ [0x1b] @ str ''[m'')) > 8
   \<and> int (stringWidth (str ''...'')) < 8
   \<and> truncate ([0x1b] @ str ''[31mhello world'' @ [0x1b] @ str ''[m'') 8 (str ''...'')
       = [0x1b] @ str ''[31mhello...''
   \<and> (\<exists>kept rest. [0x1b] @ str ''[31mhello world'' @ [0x1b] @ str ''[m'' = kept @ rest
        \<and> truncate ([0x1b] @ str ''[31mhello world'' @ [0x1b] @ str ''[m'') 8 (str ''...'')
            = kept @ str ''...''
        \<and> truncLoop (8 - int (stringWidth (str ''...''))) Ground [] 0 kept = kept
        \<and> (\<forall>p. prefix p ([0x1b] @ str ''[31mhello world'' @ [0x1b] @ str ''[m'')
              \<and> truncLoop (8 - int (stringWidth (str ''...''))) Ground [] 0 p = p
              \<longrightarrow> prefix p kept))"
proof -
  have h: "(0::int) < 8"
    "int (stringWidth ([0x1b] @ str ''[31mhello world'' @ [0x1b] @ str ''[m'')) > 8"
    "int (stringWidth (str ''...'')) < 8"
    by (simp_all add: stringWidth_def sumWidths_def stripAnsi_def codePointWidth_def
        isCsiFinal_def isCsiParam_def isCsiIntermediate_def str_def)
  have e: "truncate ([0x1b] @ str ''[31mhello world'' @ [0x1b] @ str ''[m'') 8 (str ''...'')
       = [0x1b] @ str ''[31mhello...''"
    by (simp add: truncate_def stringWidth_def sumWidths_def stripAnsi_def codePointWidth_def
        isCsiFinal_def isCsiParam_def isCsiIntermediate_def str_def)
  from truncate_drops_after_cut [OF h] h e show ?thesis by blast
qed

section \<open>Vertical join\<close>

lemma rep_0: "rep 0 c = []"
  by (simp add: rep_def)

lemma padRight_shape: "\<exists>r. padRight line w c = line @ rep r c"
proof (cases "int (stringWidth line) \<ge> w")
  case True
  then have "padRight line w c = line @ rep 0 c" by (simp add: padRight_def rep_0)
  then show ?thesis by blast
next
  case False
  then show ?thesis by (auto simp: padRight_def)
qed

lemma alignLine_shape: "\<exists>l r. alignLine pos mw line = rep l space @ line @ rep r space"
proof -
  consider (same) "stringWidth line = mw"
    | (left) "stringWidth line \<noteq> mw" "pos \<le> 0"
    | (right) "stringWidth line \<noteq> mw" "\<not> pos \<le> 0" "pos \<ge> 1"
    | (mid) "stringWidth line \<noteq> mw" "\<not> pos \<le> 0" "\<not> pos \<ge> 1"
    by blast
  then show ?thesis
  proof cases
    case same
    then have "alignLine pos mw line = rep 0 space @ line @ rep 0 space"
      by (simp add: alignLine_def rep_0)
    then show ?thesis by blast
  next
    case left
    obtain r where "padRight line (int mw) space = line @ rep r space"
      using padRight_shape by blast
    with left have "alignLine pos mw line = rep 0 space @ line @ rep r space"
      by (simp add: alignLine_def rep_0)
    then show ?thesis by blast
  next
    case right
    then have "alignLine pos mw line
      = rep (nat (int mw - int (stringWidth line))) space @ line @ rep 0 space"
      by (simp add: alignLine_def rep_0)
    then show ?thesis by blast
  next
    case mid
    then show ?thesis by (auto simp: alignLine_def Let_def)
  qed
qed

lemma alignLine_no_nl: "0x0a \<notin> set line \<Longrightarrow> 0x0a \<notin> set (alignLine pos mw line)"
proof -
  assume a: "0x0a \<notin> set line"
  obtain l r where "alignLine pos mw line = rep l space @ line @ rep r space"
    using alignLine_shape by blast
  with a set_rep_space [of l] set_rep_space [of r] show ?thesis by auto
qed

text \<open>
  C10: the height of \<open>joinVertical(pos, a, b)\<close> is the sum of the two heights, and its lines
  are the lines of \<open>a\<close> followed by the lines of \<open>b\<close>, in order, each with spaces added on
  the left and on the right and nothing removed.
\<close>

theorem joinVertical_lines:
  "getHeight (joinVertical pos [a, b]) = getHeight a + getHeight b
   \<and> list_all2 (\<lambda>line out. \<exists>l r. out = rep l space @ line @ rep r space)
        (splitNl a @ splitNl b) (splitNl (joinVertical pos [a, b]))"
proof -
  define mw where "mw = foldr max (map maxLineWidth [a, b]) 0"
  let ?f = "alignLine pos mw"
  have jv: "joinVertical pos [a, b]
      = joinNl (map ?f (splitNl a)) @ 0x0a # joinNl (map ?f (splitNl b))"
    by (simp add: joinVertical_def mw_def Let_def)
  have sp: "splitNl (joinNl (map ?f (splitNl x))) = map ?f (splitNl x)" for x
    by (rule splitNl_joinNl) (auto simp: splitNl_nonempty dest: splitNl_lines alignLine_no_nl)
  have lines: "splitNl (joinVertical pos [a, b]) = map ?f (splitNl a @ splitNl b)"
    by (simp add: jv splitNl_append_nl sp)
  have h: "getHeight (joinVertical pos [a, b]) = getHeight a + getHeight b"
    by (simp add: getHeight_def lines)
  have "list_all2 (\<lambda>line out. \<exists>l r. out = rep l space @ line @ rep r space) xs (map ?f xs)"
    for xs
    by (induction xs) (auto simp: alignLine_shape)
  then have "list_all2 (\<lambda>line out. \<exists>l r. out = rep l space @ line @ rep r space)
        (splitNl a @ splitNl b) (splitNl (joinVertical pos [a, b]))"
    by (simp only: lines)
  with h show ?thesis by blast
qed


theorem joinVertical_lines_witness:
  "getHeight (joinVertical 0 [str ''hi'', str ''hello'']) = 2
   \<and> list_all2 (\<lambda>line out. \<exists>l r. out = rep l space @ line @ rep r space)
        [str ''hi'', str ''hello''] (splitNl (joinVertical 0 [str ''hi'', str ''hello'']))"
  using joinVertical_lines [of 0 "str ''hi''" "str ''hello''"]
  by (simp add: getHeight_def str_def)

section \<open>Widths of concatenations\<close>

text \<open>
  When the first part leaves the scanner of \<open>stripAnsi\<close> in \<open>Ground\<close>, stripping a
  concatenation strips the parts; the width of a concatenation is then the sum of the widths,
  unless a low surrogate at the start of the second part pairs with the end of the first.
\<close>

lemma strip_append:
  "stripState st x = Ground \<Longrightarrow>
   stripLoop st (x @ y) = stripLoop st x @ stripLoop Ground y
   \<and> stripState st (x @ y) = stripState Ground y"
proof (induction st x rule: stripLoop.induct)
  case (1 st)
  then show ?case by simp
next
  case (2 c cs)
  then show ?case by (simp split: if_splits)
next
  case (3 c cs)
  then show ?case by (simp split: if_splits)
next
  case (4 c cs)
  then show ?case by (simp split: if_splits)
next
  case (5 c cs)
  then show ?case by (simp split: if_splits)
next
  case (6 c cs)
  then show ?case by (simp split: if_splits)
next
  case (7 c cs)
  consider (fin) "c = 0x07 \<or> c = 0x9c"
    | (nil) "\<not> (c = 0x07 \<or> c = 0x9c)" "cs = []"
    | (st) d ds where "\<not> (c = 0x07 \<or> c = 0x9c)" "cs = d # ds" "c = 0x1b \<and> d = 0x5c"
    | (stay) d ds where "\<not> (c = 0x07 \<or> c = 0x9c)" "cs = d # ds" "\<not> (c = 0x1b \<and> d = 0x5c)"
    by (cases cs) auto
  then show ?case
  proof cases
    case fin
    with "7.prems" have "stripState Ground cs = Ground" by simp
    from "7.IH"(1) [OF fin this] fin show ?thesis by simp
  next
    case nil
    with "7.prems" show ?thesis by simp
  next
    case st
    with "7.prems" have "stripState Ground ds = Ground" by simp
    from "7.IH"(3) [OF st this] st show ?thesis by simp
  next
    case stay
    have e: "stripLoop OscString (c # cs @ y) = stripLoop OscString (cs @ y)"
      "stripLoop OscString (c # cs) = stripLoop OscString cs"
      "stripState OscString (c # cs @ y) = stripState OscString (cs @ y)"
      "stripState OscString (c # cs) = stripState OscString cs"
      using stay by auto
    with "7.prems" have "stripState OscString cs = Ground" by simp
    from "7.IH"(4) [OF stay this] show ?thesis
      unfolding append_Cons e .
  qed
qed

lemma stripLoop_plain:
  "0x1b \<notin> set z \<Longrightarrow> 0x9b \<notin> set z \<Longrightarrow> 0x9d \<notin> set z \<Longrightarrow> stripLoop Ground z = z"
  by (induction z) auto

lemma stripAnsi_slow: "0x9d \<notin> set z \<Longrightarrow> stripAnsi z = stripLoop Ground z"
  by (simp add: stripAnsi_def stripLoop_plain)

lemma codePoints_not_high:
  "\<not> (0xD800 \<le> c \<and> c \<le> 0xDBFF) \<Longrightarrow> codePoints (c # cs) = c # codePoints cs"
  by (cases cs) auto

lemma codePoints_append:
  "v = [] \<or> \<not> (0xDC00 \<le> hd v \<and> hd v \<le> 0xDFFF) \<Longrightarrow>
   codePoints (u @ v) = codePoints u @ codePoints v"
proof (induction u rule: codePoints.induct)
  case 1
  then show ?case by simp
next
  case (2 c)
  then show ?case by (cases v) auto
next
  case (3 h l cs)
  then show ?case by auto
qed

lemma sumWidths_append:
  "v = [] \<or> \<not> (0xDC00 \<le> hd v \<and> hd v \<le> 0xDFFF) \<Longrightarrow>
   sumWidths (u @ v) = sumWidths u + sumWidths v"
  by (simp add: sumWidths_def codePoints_append)

lemma codePointWidth_le2: "codePointWidth c \<le> 2"
  by (simp add: codePointWidth_def)

lemma codePointWidth_surrogate: "0xD800 \<le> c \<Longrightarrow> c \<le> 0xDFFF \<Longrightarrow> codePointWidth c = 1"
  by (simp add: codePointWidth_def)

lemma sumWidths_Cons_le: "sumWidths (c # cs) \<le> codePointWidth c + sumWidths cs"
proof (cases cs)
  case Nil
  then show ?thesis by (simp add: sumWidths_def)
next
  case (Cons l ds)
  show ?thesis
  proof (cases "0xD800 \<le> c \<and> c \<le> 0xDBFF \<and> 0xDC00 \<le> l \<and> l \<le> 0xDFFF")
    case True
    then have "codePointWidth c = 1" by (simp add: codePointWidth_surrogate)
    moreover from True have "sumWidths (l # ds) = 1 + sumWidths ds"
      by (simp add: sumWidths_def codePoints_not_high codePointWidth_surrogate)
    moreover from True have "sumWidths (c # l # ds)
        = codePointWidth (0x10000 + (c - 0xD800) * 0x400 + (l - 0xDC00)) + sumWidths ds"
      by (simp add: sumWidths_def)
    ultimately show ?thesis
      using codePointWidth_le2 [of "0x10000 + (c - 0xD800) * 0x400 + (l - 0xDC00)"] Cons
      by simp
  next
    case False
    then show ?thesis using Cons by (auto simp: sumWidths_def)
  qed
qed

lemma sumWidths_Cons_not_high:
  "\<not> (0xD800 \<le> c \<and> c \<le> 0xDBFF) \<Longrightarrow> sumWidths (c # cs) = codePointWidth c + sumWidths cs"
  by (simp add: sumWidths_def codePoints_not_high)

lemma sumWidths_subadd: "sumWidths (u @ v) \<le> sumWidths u + sumWidths v"
proof (induction u rule: codePoints.induct)
  case 1
  then show ?case by simp
next
  case (2 c)
  have "sumWidths [c] = codePointWidth c" by (simp add: sumWidths_def)
  then show ?case using sumWidths_Cons_le [of c v] by simp
next
  case (3 h l cs)
  show ?case
  proof (cases "0xD800 \<le> h \<and> h \<le> 0xDBFF \<and> 0xDC00 \<le> l \<and> l \<le> 0xDFFF")
    case True
    then show ?thesis using 3 by (simp add: sumWidths_def)
  next
    case False
    then have a: "sumWidths (h # l # cs @ v) = codePointWidth h + sumWidths (l # cs @ v)"
      and b: "sumWidths (h # l # cs) = codePointWidth h + sumWidths (l # cs)"
      by (auto simp: sumWidths_def)
    from False 3 have "sumWidths ((l # cs) @ v) \<le> sumWidths (l # cs) + sumWidths v"
      by blast
    with a b show ?thesis by simp
  qed
qed

lemma sumWidths_le_units: "sumWidths u \<le> sum_list (map codePointWidth u)"
proof (induction u)
  case Nil
  then show ?case by (simp add: sumWidths_def)
next
  case (Cons c cs)
  then show ?case using sumWidths_Cons_le [of c cs] by simp
qed

lemma stringWidth_append:
  assumes "closedLine x" and "0x9d \<notin> set x" and "0x9d \<notin> set y" and "\<not> startsLow y"
  shows "stringWidth (x @ y) = stringWidth x + stringWidth y"
proof -
  have s: "stripAnsi (x @ y) = stripAnsi x @ stripAnsi y"
    using assms by (simp add: stripAnsi_slow strip_append closedLine_def)
  have "stripAnsi y = [] \<or> \<not> (0xDC00 \<le> hd (stripAnsi y) \<and> hd (stripAnsi y) \<le> 0xDFFF)"
    using assms(4) by (auto simp: startsLow_def split: list.splits)
  then have "sumWidths (stripAnsi x @ stripAnsi y) = sumWidths (stripAnsi x) + sumWidths (stripAnsi y)"
    by (rule sumWidths_append)
  moreover have "stripAnsi [] = []" by (simp add: stripAnsi_def)
  moreover have "sumWidths [] = 0" by (simp add: sumWidths_def)
  ultimately show ?thesis using s by (auto simp: stringWidth_def)
qed


lemma rep_Suc: "rep (Suc n) c = c @ rep n c"
  by (simp add: rep_def)

lemma rep_space_props:
  "stripAnsi (rep n space) = rep n space \<and> sumWidths (rep n space) = n
   \<and> closedLine (rep n space) \<and> 0x9d \<notin> set (rep n space) \<and> 0x0a \<notin> set (rep n space)"
proof (induction n)
  case 0
  then show ?case
    by (simp add: rep_def stripAnsi_def sumWidths_def closedLine_def)
next
  case (Suc n)
  have c: "rep (Suc n) space = 0x20 # rep n space" by (simp add: rep_Suc space_def)
  have "sumWidths (0x20 # rep n space) = codePointWidth 0x20 + sumWidths (rep n space)"
    by (rule sumWidths_Cons_not_high) simp
  moreover have "codePointWidth 0x20 = 1" by (simp add: codePointWidth_def)
  ultimately show ?case using Suc
    by (auto simp: c stripAnsi_def closedLine_def)
qed

lemma stringWidth_rep_space: "stringWidth (rep n space) = n"
proof (cases "rep n space = []")
  case True
  then have "sumWidths (rep n space) = 0" by (simp add: sumWidths_def)
  with True rep_space_props [of n] show ?thesis by (simp add: stringWidth_def)
next
  case False
  with rep_space_props [of n] show ?thesis by (simp add: stringWidth_def)
qed

lemma not_startsLow_rep_space: "\<not> startsLow (rep n space)"
proof (cases n)
  case 0
  then show ?thesis by (simp add: startsLow_def rep_def stripAnsi_def)
next
  case (Suc m)
  have "stripAnsi (rep (Suc m) space) = 0x20 # rep m space"
    using rep_space_props [of "Suc m"] by (simp add: rep_Suc space_def)
  with Suc show ?thesis by (simp add: startsLow_def)
qed

section \<open>Horizontal join\<close>

lemma padRight_good:
  assumes "closedLine l" and "0x9d \<notin> set l" and "0x0a \<notin> set l" and "stringWidth l \<le> w"
  shows "stringWidth (padRight l (int w) space) = w
     \<and> closedLine (padRight l (int w) space)
     \<and> 0x9d \<notin> set (padRight l (int w) space)
     \<and> 0x0a \<notin> set (padRight l (int w) space)
     \<and> (\<not> startsLow l \<longrightarrow> \<not> startsLow (padRight l (int w) space))"
proof (cases "stringWidth l = w")
  case True
  then have "padRight l (int w) space = l" by (simp add: padRight_def)
  with assms True show ?thesis by simp
next
  case False
  define n where "n = w - stringWidth l"
  from False assms(4) have p: "padRight l (int w) space = l @ rep n space"
    by (simp add: padRight_def n_def nat_diff_distrib')
  have sw: "stringWidth (l @ rep n space) = stringWidth l + n"
    using stringWidth_append [OF assms(1) assms(2), of "rep n space"]
      rep_space_props [of n] not_startsLow_rep_space [of n] stringWidth_rep_space [of n]
    by simp
  have cl: "closedLine (l @ rep n space)"
    using strip_append [of Ground l "rep n space"] assms(1) rep_space_props [of n]
    by (simp add: closedLine_def)
  have "stripLoop Ground (rep n space) = rep n space"
    using stripAnsi_slow [of "rep n space"] rep_space_props [of n] by simp
  then have st: "stripAnsi (l @ rep n space) = stripAnsi l @ rep n space"
    using strip_append [of Ground l "rep n space"] assms(1,2) rep_space_props [of n]
    by (simp add: closedLine_def stripAnsi_slow)
  have low: "\<not> startsLow (l @ rep n space)" if "\<not> startsLow l"
  proof (cases "stripAnsi l")
    case Nil
    with st have "stripAnsi (l @ rep n space) = stripAnsi (rep n space)"
      using rep_space_props [of n] by simp
    then show ?thesis using not_startsLow_rep_space [of n] by (simp add: startsLow_def)
  next
    case (Cons c cs)
    with that st show ?thesis by (simp add: startsLow_def)
  qed
  from sw cl low assms rep_space_props [of n] show ?thesis
    unfolding p n_def by auto
qed

lemma length_alignBlock: "length L \<le> H \<Longrightarrow> length (alignBlock pos H L w) = H"
  by (auto simp: alignBlock_def Let_def)

lemma set_alignBlock: "set (alignBlock pos H L w) \<subseteq> set L \<union> {rep w space}"
  by (auto simp: alignBlock_def Let_def)

lemma foldl_width_const:
  "\<forall>l\<in>set ls. stringWidth l = k \<Longrightarrow> m \<le> k \<Longrightarrow> ls \<noteq> [] \<Longrightarrow>
   foldl (\<lambda>mx line. if stringWidth line > mx then stringWidth line else mx) m ls = k"
proof (induction ls arbitrary: m)
  case Nil
  then show ?case by simp
next
  case (Cons x xs)
  have x: "stringWidth x = k" using Cons.prems(1) by simp
  show ?case
  proof (cases "xs = []")
    case True
    with x Cons.prems(2) show ?thesis by simp
  next
    case False
    have "foldl (\<lambda>mx line. if stringWidth line > mx then stringWidth line else mx) k xs = k"
      using Cons.IH [of k] Cons.prems(1) False by simp
    with x Cons.prems(2) show ?thesis by (cases "m < k") auto
  qed
qed

lemma splitNl_subset: "l \<in> set (splitNl s) \<Longrightarrow> set l \<subseteq> set s"
proof (induction s arbitrary: l)
  case Nil
  then show ?case by simp
next
  case (Cons c cs)
  obtain x xs where sp: "splitNl cs = x # xs"
    using splitNl_nonempty [of cs] by (cases "splitNl cs") auto
  have x: "set x \<subseteq> set cs" and xs: "\<And>k. k \<in> set xs \<Longrightarrow> set k \<subseteq> set cs"
    using Cons.IH sp by auto
  show ?case
  proof (cases "c = 0x0a")
    case True
    with Cons.prems sp x xs show ?thesis by auto
  next
    case False
    with Cons.prems sp have "l = c # x \<or> l \<in> set xs" by simp
    with x xs show ?thesis by auto
  qed
qed

lemma padRight_no_nl: "0x0a \<notin> set l \<Longrightarrow> 0x0a \<notin> set (padRight l w space)"
proof -
  assume a: "0x0a \<notin> set l"
  obtain r where "padRight l w space = l @ rep r space" using padRight_shape by blast
  with a set_rep_space [of r] show ?thesis by auto
qed

lemma aligned_no_nl:
  "p \<in> set (map (\<lambda>line. padRight line w' space) (alignBlock pos H (splitNl s) w)) \<Longrightarrow>
   0x0a \<notin> set p"
proof -
  assume "p \<in> set (map (\<lambda>line. padRight line w' space) (alignBlock pos H (splitNl s) w))"
  then obtain l where l: "l \<in> set (alignBlock pos H (splitNl s) w)" "p = padRight l w' space"
    by auto
  from l(1) set_alignBlock have "l \<in> set (splitNl s) \<or> l = rep w space" by blast
  then have "0x0a \<notin> set l" using splitNl_lines set_rep_space [of w] by auto
  with l(2) show ?thesis by (simp add: padRight_no_nl)
qed

lemma aligned_good:
  assumes "closedBlock s"
    and "p \<in> set (map (\<lambda>line. padRight line (int (maxLineWidth s)) space)
                   (alignBlock pos H (splitNl s) (maxLineWidth s)))"
  shows "stringWidth p = maxLineWidth s \<and> closedLine p \<and> 0x9d \<notin> set p
     \<and> (\<not> lowStart s \<longrightarrow> \<not> startsLow p)"
proof -
  let ?w = "maxLineWidth s"
  from assms(2) obtain l where
    l: "l \<in> set (alignBlock pos H (splitNl s) ?w)" "p = padRight l (int ?w) space"
    by auto
  from l(1) set_alignBlock have "l \<in> set (splitNl s) \<or> l = rep ?w space" by blast
  then have g: "closedLine l \<and> 0x9d \<notin> set l \<and> 0x0a \<notin> set l \<and> stringWidth l \<le> ?w
      \<and> (\<not> lowStart s \<longrightarrow> \<not> startsLow l)"
  proof
    assume m: "l \<in> set (splitNl s)"
    with assms(1) have "closedLine l" by (auto simp: closedBlock_def list_all_iff)
    moreover from m assms(1) splitNl_subset have "0x9d \<notin> set l"
      by (auto simp: closedBlock_def)
    moreover from m have "\<not> lowStart s \<longrightarrow> \<not> startsLow l"
      by (auto simp: lowStart_def list_ex_iff)
    ultimately show ?thesis using m splitNl_lines maxLineWidth_ge_line by blast
  next
    assume "l = rep ?w space"
    then show ?thesis
      using rep_space_props [of ?w] stringWidth_rep_space [of ?w]
        not_startsLow_rep_space [of ?w] by simp
  qed
  then show ?thesis using padRight_good [of l ?w] l(2) by simp
qed

text \<open>
  C6, as stated, fails: a line that ends inside a control sequence takes the start of the line
  joined to it. With \<open>a = ESC\<close> and \<open>b = A\<close> the joined row is \<open>ESC A\<close>, a two-byte escape of
  width 0, and \<open>getWidth(a) + getWidth(b)\<close> is 1.
\<close>

theorem joinHorizontal_width_unclosed:
  "getWidth (joinHorizontal 0 [[0x1b], str ''A'']) \<noteq> getWidth [0x1b] + getWidth (str ''A'')
   \<and> getWidth (joinHorizontal 0 [[0x1b], str ''A'']) = 0
   \<and> getWidth [0x1b] + getWidth (str ''A'') = 1"
  by (simp add: getWidth_def joinHorizontal_def alignBlock_def rowOf_def padRight_def
      maxLineWidth_def stringWidth_def sumWidths_def stripAnsi_def codePointWidth_def
      str_def)

text \<open>
  C6, amended: the height of \<open>joinHorizontal(pos, a, b)\<close> is the larger of the two heights,
  for all \<open>a\<close> and \<open>b\<close>; its width is the sum of the two widths when no line of \<open>a\<close> or
  \<open>b\<close> ends inside a control sequence, the code unit \<open>0x9D\<close> occurs in neither, and no line
  of \<open>b\<close> starts with a low surrogate.
\<close>

theorem joinHorizontal_size:
  "getHeight (joinHorizontal pos [a, b]) = max (getHeight a) (getHeight b)
   \<and> (closedBlock a \<and> closedBlock b \<and> \<not> lowStart b
        \<longrightarrow> getWidth (joinHorizontal pos [a, b]) = getWidth a + getWidth b)"
proof -
  define H where "H = max (length (splitNl a)) (length (splitNl b))"
  define PA where "PA = map (\<lambda>line. padRight line (int (maxLineWidth a)) space)
                          (alignBlock pos H (splitNl a) (maxLineWidth a))"
  define PB where "PB = map (\<lambda>line. padRight line (int (maxLineWidth b)) space)
                          (alignBlock pos H (splitNl b) (maxLineWidth b))"
  define rows where "rows = map (\<lambda>row. rowOf row PA @ rowOf row PB) [0..<H]"
  have jh: "joinHorizontal pos [a, b] = joinNl rows"
    by (simp add: joinHorizontal_def Let_def joinNl_splitNl rows_def PA_def PB_def H_def)
  have len: "length PA = H" "length PB = H"
    by (simp_all add: PA_def PB_def H_def length_alignBlock)
  have H: "0 < H"
    using splitNl_nonempty [of a] by (cases "splitNl a") (simp_all add: H_def)
  have row: "\<exists>p q. r = p @ q \<and> p \<in> set PA \<and> q \<in> set PB" if "r \<in> set rows" for r
  proof -
    from that obtain i where i: "i < H" "r = rowOf i PA @ rowOf i PB"
      by (auto simp: rows_def)
    with len have "rowOf i PA \<in> set PA" "rowOf i PB \<in> set PB"
      by (simp_all add: rowOf_def)
    with i(2) show ?thesis by blast
  qed
  have nonl: "0x0a \<notin> set r" if "r \<in> set rows" for r
  proof -
    from row [OF that] obtain p q where "r = p @ q" "p \<in> set PA" "q \<in> set PB" by blast
    then show ?thesis using aligned_no_nl unfolding PA_def PB_def by fastforce
  qed
  have ne: "rows \<noteq> []" using H by (simp add: rows_def)
  have sp: "splitNl (joinNl rows) = rows"
    using ne nonl by (intro splitNl_joinNl) auto
  have height: "getHeight (joinHorizontal pos [a, b]) = max (getHeight a) (getHeight b)"
    by (simp add: getHeight_def jh sp) (simp add: rows_def H_def)
  have width: "getWidth (joinHorizontal pos [a, b]) = getWidth a + getWidth b"
    if c: "closedBlock a" "closedBlock b" "\<not> lowStart b"
  proof -
    have "stringWidth r = maxLineWidth a + maxLineWidth b" if "r \<in> set rows" for r
    proof -
      from row [OF that] obtain p q where r: "r = p @ q" "p \<in> set PA" "q \<in> set PB"
        by blast
      from aligned_good [OF c(1)] r(2)
      have p: "stringWidth p = maxLineWidth a" "closedLine p" "0x9d \<notin> set p"
        unfolding PA_def by blast+
      from aligned_good [OF c(2)] r(3) c(3)
      have q: "stringWidth q = maxLineWidth b" "0x9d \<notin> set q" "\<not> startsLow q"
        unfolding PB_def by blast+
      from stringWidth_append [OF p(2) p(3) q(2) q(3)] p(1) q(1) r(1) show ?thesis by simp
    qed
    then have "maxLineWidth (joinNl rows) = maxLineWidth a + maxLineWidth b"
      using ne by (simp add: maxLineWidth_def sp foldl_width_const)
    then show ?thesis by (simp add: getWidth_def jh)
  qed
  from height width show ?thesis by blast
qed

theorem joinHorizontal_size_witness:
  "closedBlock ([0x1b] @ str ''[1mhi'' @ [0x1b] @ str ''[m'')
   \<and> closedBlock (str ''yo'' @ [0x0a] @ str ''abc'')
   \<and> \<not> lowStart (str ''yo'' @ [0x0a] @ str ''abc'')
   \<and> getWidth ([0x1b] @ str ''[1mhi'' @ [0x1b] @ str ''[m'') = 2
   \<and> getWidth (str ''yo'' @ [0x0a] @ str ''abc'') = 3
   \<and> getWidth (joinHorizontal (1 / 2) [[0x1b] @ str ''[1mhi'' @ [0x1b] @ str ''[m'',
                                          str ''yo'' @ [0x0a] @ str ''abc'']) = 5
   \<and> getHeight (joinHorizontal (1 / 2) [[0x1b] @ str ''[1mhi'' @ [0x1b] @ str ''[m'',
                                           str ''yo'' @ [0x0a] @ str ''abc'']) = 2"
  using joinHorizontal_size [of "1 / 2" "[0x1b] @ str ''[1mhi'' @ [0x1b] @ str ''[m''"
      "str ''yo'' @ [0x0a] @ str ''abc''"]
  by (simp add: closedBlock_def closedLine_def lowStart_def startsLow_def getWidth_def
      getHeight_def maxLineWidth_def stringWidth_def sumWidths_def stripAnsi_def
      codePointWidth_def isCsiFinal_def isCsiParam_def isCsiIntermediate_def str_def)

section \<open>Truncation\<close>

text \<open>
  On a well-escaped string the scanner of \<open>truncate\<close> and the scanner of \<open>stripAnsi\<close> take
  the same steps: what \<open>truncate\<close> keeps leaves \<open>stripAnsi\<close> in \<open>Ground\<close>, and the code units
  that \<open>stripAnsi\<close> finds visible in it are the ones \<open>truncate\<close> has counted.
\<close>

lemma wellEscaped_Cons:
  "wellEscaped (c # cs) \<Longrightarrow>
   wellEscaped cs \<and> c \<noteq> 0x9c \<and> c \<noteq> 0x9d
   \<and> (c = 0x1b \<longrightarrow> cs = [] \<or> (0x40 \<le> hd cs \<and> hd cs \<le> 0x7e))"
  by (cases cs) auto

lemma wellEscaped_prefix: "wellEscaped (x @ y) \<Longrightarrow> wellEscaped x"
proof (induction x rule: wellEscaped.induct)
  case 1
  then show ?case by simp
next
  case (2 c)
  then show ?case using wellEscaped_Cons [of c y] by simp
next
  case (3 c d cs)
  then show ?case by simp
qed

lemma wellEscaped_no_9d: "wellEscaped x \<Longrightarrow> 0x9d \<notin> set x"
  by (induction x rule: wellEscaped.induct) auto

lemma trunc_fixed_strip:
  "truncLoop tw st buf w r = buf @ r \<Longrightarrow> (st = Ground) = (buf = []) \<Longrightarrow> wellEscaped r \<Longrightarrow>
   (st = Escape \<longrightarrow> r = [] \<or> (0x40 \<le> hd r \<and> hd r \<le> 0x7e)) \<Longrightarrow> w \<le> tw \<Longrightarrow>
   stripState st r = Ground
   \<and> w + int (sum_list (map codePointWidth (stripLoop st r))) \<le> tw"
proof (induction tw st buf w r rule: truncLoop.induct)
  case (1 tw st buf w)
  then show ?case by simp
next
  case (2 tw buf w c cs)
  from wellEscaped_Cons [OF "2.prems"(3)] have
    we: "wellEscaped cs" "c \<noteq> 0x9c" "c \<noteq> 0x9d"
      "c = 0x1b \<longrightarrow> cs = [] \<or> (0x40 \<le> hd cs \<and> hd cs \<le> 0x7e)"
    by blast+
  from "2.prems"(2) have buf: "buf = []" by simp
  consider (esc) "c = 0x1b" | (csi) "c \<noteq> 0x1b" "c = 0x9b"
    | (cut) "c \<noteq> 0x1b" "c \<noteq> 0x9b" "w + int (codePointWidth c) > tw"
    | (fit) "c \<noteq> 0x1b" "c \<noteq> 0x9b" "\<not> w + int (codePointWidth c) > tw"
    by blast
  then show ?case
  proof cases
    case esc
    with "2.prems"(1) buf have "truncLoop tw Escape [c] w cs = [c] @ cs" by simp
    from "2.IH"(1) [OF esc this _ we(1) _ "2.prems"(5)] we(4) esc show ?thesis by simp
  next
    case csi
    with "2.prems"(1) buf have "truncLoop tw CsiEntry [c] w cs = [c] @ cs" by simp
    from "2.IH"(2) [OF csi this _ we(1) _ "2.prems"(5)] csi show ?thesis by simp
  next
    case cut
    with "2.prems"(1) buf show ?thesis by simp
  next
    case fit
    with "2.prems"(1) buf have "truncLoop tw Ground buf (w + int (codePointWidth c)) cs = buf @ cs"
      by simp
    from "2.IH"(3) [OF fit this _ we(1)] fit buf we(3) show ?thesis by simp
  qed
next
  case (3 tw buf w c cs)
  from wellEscaped_Cons [OF "3.prems"(3)] have we: "wellEscaped cs" by blast
  from "3.prems"(4) have rng: "0x40 \<le> c" "c \<le> 0x7e" by simp_all
  consider (csi) "c = 0x5b" | (osc) "c \<noteq> 0x5b" "c = 0x5d" | (other) "c \<noteq> 0x5b" "c \<noteq> 0x5d"
    by blast
  then show ?case
  proof cases
    case csi
    with "3.prems"(1) have "truncLoop tw CsiEntry (buf @ [c]) w cs = (buf @ [c]) @ cs" by simp
    from "3.IH"(1) [OF csi this _ we _ "3.prems"(5)] csi show ?thesis by simp
  next
    case osc
    with "3.prems"(1) have "truncLoop tw OscString (buf @ [c]) w cs = (buf @ [c]) @ cs" by simp
    from "3.IH"(2) [OF osc this _ we _ "3.prems"(5)] osc show ?thesis by simp
  next
    case other
    with "3.prems"(1) have "truncLoop tw Ground [] w cs = [] @ cs" by simp
    from "3.IH"(3) [OF other this _ we _ "3.prems"(5)] other rng show ?thesis by auto
  qed
next
  case (4 tw buf w c cs)
  from wellEscaped_Cons [OF "4.prems"(3)] have we: "wellEscaped cs" by blast
  consider (fin) "isCsiFinal c" | (par) "\<not> isCsiFinal c" "isCsiParam c"
    | (int) "\<not> isCsiFinal c" "\<not> isCsiParam c" "isCsiIntermediate c"
    | (stay) "\<not> isCsiFinal c" "\<not> isCsiParam c" "\<not> isCsiIntermediate c"
    by blast
  then show ?case
  proof cases
    case fin
    then have d: "\<not> isCsiParam c" "\<not> isCsiIntermediate c"
      by (auto simp: isCsiFinal_def isCsiParam_def isCsiIntermediate_def)
    from fin "4.prems"(1) have "truncLoop tw Ground [] w cs = [] @ cs" by simp
    from "4.IH"(1) [OF fin this _ we _ "4.prems"(5)] fin d show ?thesis by simp
  next
    case par
    with "4.prems"(1) have "truncLoop tw CsiParam (buf @ [c]) w cs = (buf @ [c]) @ cs" by simp
    from "4.IH"(2) [OF par this _ we _ "4.prems"(5)] par show ?thesis by simp
  next
    case int
    with "4.prems"(1) have "truncLoop tw CsiIntermediate (buf @ [c]) w cs = (buf @ [c]) @ cs"
      by simp
    from "4.IH"(3) [OF int this _ we _ "4.prems"(5)] int show ?thesis by simp
  next
    case stay
    with "4.prems"(1) have "truncLoop tw CsiEntry (buf @ [c]) w cs = (buf @ [c]) @ cs" by simp
    from "4.IH"(4) [OF stay this _ we _ "4.prems"(5)] stay show ?thesis by simp
  qed
next
  case (5 tw buf w c cs)
  from wellEscaped_Cons [OF "5.prems"(3)] have we: "wellEscaped cs" by blast
  consider (fin) "isCsiFinal c" | (par) "\<not> isCsiFinal c" "isCsiParam c"
    | (int) "\<not> isCsiFinal c" "\<not> isCsiParam c" "isCsiIntermediate c"
    | (stay) "\<not> isCsiFinal c" "\<not> isCsiParam c" "\<not> isCsiIntermediate c"
    by blast
  then show ?case
  proof cases
    case fin
    then have d: "\<not> isCsiParam c" "\<not> isCsiIntermediate c"
      by (auto simp: isCsiFinal_def isCsiParam_def isCsiIntermediate_def)
    from fin "5.prems"(1) have "truncLoop tw Ground [] w cs = [] @ cs" by simp
    from "5.IH"(1) [OF fin this _ we _ "5.prems"(5)] fin d show ?thesis by simp
  next
    case par
    with "5.prems"(1) have "truncLoop tw CsiParam (buf @ [c]) w cs = (buf @ [c]) @ cs" by simp
    moreover from par have "\<not> isCsiIntermediate c"
      by (auto simp: isCsiParam_def isCsiIntermediate_def)
    ultimately show ?thesis
      using "5.IH"(2) [OF par _ _ we _ "5.prems"(5)] par by simp
  next
    case int
    with "5.prems"(1) have "truncLoop tw CsiIntermediate (buf @ [c]) w cs = (buf @ [c]) @ cs"
      by simp
    from "5.IH"(3) [OF int this _ we _ "5.prems"(5)] int show ?thesis by simp
  next
    case stay
    with "5.prems"(1) have "truncLoop tw CsiParam (buf @ [c]) w cs = (buf @ [c]) @ cs" by simp
    from "5.IH"(4) [OF stay this _ we _ "5.prems"(5)] stay show ?thesis by simp
  qed
next
  case (6 tw buf w c cs)
  from wellEscaped_Cons [OF "6.prems"(3)] have we: "wellEscaped cs" by blast
  show ?case
  proof (cases "isCsiFinal c")
    case True
    with "6.prems"(1) have "truncLoop tw Ground [] w cs = [] @ cs" by simp
    from "6.IH"(1) [OF True this _ we _ "6.prems"(5)] True show ?thesis by simp
  next
    case False
    with "6.prems"(1) have "truncLoop tw CsiIntermediate (buf @ [c]) w cs = (buf @ [c]) @ cs"
      by simp
    from "6.IH"(2) [OF False this _ we _ "6.prems"(5)] False show ?thesis by simp
  qed
next
  case (7 tw buf w c cs)
  from wellEscaped_Cons [OF "7.prems"(3)] have we: "wellEscaped cs" "c \<noteq> 0x9c" by blast+
  consider (bel) "c = 0x07"
    | (nil) "c \<noteq> 0x07" "cs = []"
    | (st) d ds where "c \<noteq> 0x07" "cs = d # ds" "c = 0x1b \<and> d = 0x5c"
    | (stay) d ds where "c \<noteq> 0x07" "cs = d # ds" "\<not> (c = 0x1b \<and> d = 0x5c)"
    by (cases cs) auto
  then show ?case
  proof cases
    case bel
    with "7.prems"(1) have "truncLoop tw Ground [] w cs = [] @ cs" by simp
    from "7.IH"(1) [OF bel this _ we(1) _ "7.prems"(5)] bel show ?thesis by simp
  next
    case nil
    with "7.prems"(1) show ?thesis by simp
  next
    case st
    from wellEscaped_Cons [of d ds] we(1) st(2) have wd: "wellEscaped ds" by simp
    from st "7.prems"(1) have "truncLoop tw Ground [] w ds = [] @ ds" by simp
    from "7.IH"(3) [OF st this _ wd _ "7.prems"(5)] st we(2) show ?thesis by simp
  next
    case stay
    from stay "7.prems"(1) have "truncLoop tw OscString (buf @ [c]) w cs = (buf @ [c]) @ cs"
      by auto
    from "7.IH"(4) [OF stay this _ we(1) _ "7.prems"(5)]
    have ih: "stripState OscString cs = Ground
       \<and> w + int (sum_list (map codePointWidth (stripLoop OscString cs))) \<le> tw"
      by simp
    have e: "stripLoop OscString (c # cs) = stripLoop OscString cs"
      "stripState OscString (c # cs) = stripState OscString cs"
      using stay we(2) by auto
    from ih show ?thesis unfolding e .
  qed
qed

lemma stringWidth_sumWidths: "stringWidth x = sumWidths (stripAnsi x)"
  by (simp add: stringWidth_def stripAnsi_def sumWidths_def)

lemma truncate_cut_width:
  assumes "0 < mw" and "mw < int (stringWidth s)" and "int (stringWidth tail) < mw"
    and "wellEscaped s" and "0x9d \<notin> set tail"
  shows "int (stringWidth (truncate s mw tail)) \<le> mw"
proof -
  let ?tw = "mw - int (stringWidth tail)"
  from truncate_cut_form [OF assms(1-3)] obtain kept rest where
    k: "s = kept @ rest" "truncate s mw tail = kept @ tail"
       "truncLoop ?tw Ground [] 0 kept = kept"
    by blast
  from assms(4) k(1) have we: "wellEscaped kept" using wellEscaped_prefix by blast
  have "truncLoop ?tw Ground [] 0 kept = [] @ kept" using k(3) by simp
  from trunc_fixed_strip [OF this _ we] assms(3)
  have q: "stripState Ground kept = Ground"
    "int (sum_list (map codePointWidth (stripLoop Ground kept))) \<le> ?tw"
    by simp_all
  have "0x9d \<notin> set (kept @ tail)" using wellEscaped_no_9d [OF we] assms(5) by simp
  then have "stripAnsi (kept @ tail) = stripLoop Ground (kept @ tail)"
    by (rule stripAnsi_slow)
  also have "\<dots> = stripLoop Ground kept @ stripLoop Ground tail"
    using strip_append [OF q(1)] by simp
  also have "stripLoop Ground tail = stripAnsi tail"
    using stripAnsi_slow [OF assms(5)] by simp
  finally have "stringWidth (kept @ tail) = sumWidths (stripLoop Ground kept @ stripAnsi tail)"
    by (simp add: stringWidth_sumWidths)
  also have "\<dots> \<le> sumWidths (stripLoop Ground kept) + sumWidths (stripAnsi tail)"
    by (rule sumWidths_subadd)
  also have "\<dots> \<le> sum_list (map codePointWidth (stripLoop Ground kept)) + stringWidth tail"
    using sumWidths_le_units [of "stripLoop Ground kept"] by (simp add: stringWidth_sumWidths)
  finally show ?thesis using q(2) k(2) by simp
qed

lemma truncate_cut_closed:
  assumes "0 < mw" and "mw < int (stringWidth s)" and "int (stringWidth tail) < mw"
    and "wellEscaped s"
  shows "\<exists>kept rest. s = kept @ rest \<and> truncate s mw tail = kept @ tail
           \<and> stripState Ground kept = Ground
           \<and> int (stringWidth kept) \<le> mw - int (stringWidth tail)"
proof -
  let ?tw = "mw - int (stringWidth tail)"
  from truncate_cut_form [OF assms(1-3)] obtain kept rest where
    k: "s = kept @ rest" "truncate s mw tail = kept @ tail"
       "truncLoop ?tw Ground [] 0 kept = kept"
    by blast
  from assms(4) k(1) have we: "wellEscaped kept" using wellEscaped_prefix by blast
  have "truncLoop ?tw Ground [] 0 kept = [] @ kept" using k(3) by simp
  from trunc_fixed_strip [OF this _ we] assms(3)
  have q: "stripState Ground kept = Ground"
    "int (sum_list (map codePointWidth (stripLoop Ground kept))) \<le> ?tw"
    by simp_all
  have "stripAnsi kept = stripLoop Ground kept"
    using wellEscaped_no_9d [OF we] by (rule stripAnsi_slow)
  then have "stringWidth kept = sumWidths (stripLoop Ground kept)"
    by (simp add: stringWidth_sumWidths)
  also have "\<dots> \<le> sum_list (map codePointWidth (stripLoop Ground kept))"
    by (rule sumWidths_le_units)
  finally have "int (stringWidth kept) \<le> ?tw" using q(2) by simp
  with k(1,2) q(1) show ?thesis by blast
qed

text \<open>
  Outside the well-escaped strings the scanner of \<open>truncate\<close> and the scanner of \<open>stripAnsi\<close>,
  which measures, differ. After \<open>ESC\<close>, \<open>stripAnsi\<close> takes a code unit outside \<open>0x40..0x7E\<close>
  for text and \<open>truncate\<close> takes it for the second half of a control pair: of \<open>ESC 1 a b c\<close>
  cut to 2 columns \<open>truncate\<close> keeps \<open>ESC 1 a b\<close>, which is 3 columns wide. And \<open>truncate\<close>
  does not know the introducer \<open>0x9D\<close>: of \<open>0x9D a b BEL c d\<close> cut to 1 column it keeps
  \<open>0x9D a\<close>, which ends inside an OSC run of the other scanner.
\<close>

lemma truncate_scanner_differs:
  "truncate ([0x1b] @ str ''1abc'') 2 [] = [0x1b] @ str ''1ab''
   \<and> stringWidth ([0x1b] @ str ''1ab'') = 3
   \<and> truncate ([0x9d] @ str ''ab'' @ [0x07] @ str ''cd'') 1 [] = [0x9d] @ str ''a''
   \<and> stripState Ground ([0x9d] @ str ''a'') = OscString"
  by (simp add: truncate_def stringWidth_def sumWidths_def stripAnsi_def codePointWidth_def
      isCsiFinal_def isCsiParam_def isCsiIntermediate_def str_def)

text \<open>
  C1, as stated, fails. The test \<open>stringWidth(s) <= maxWidth\<close> comes before the test of the
  tail, so \<open>truncate('hi', 3, '....')\<close> is \<open>hi\<close> and not the tail cut to 3. The tail is cut
  by code units: a tail of three wide characters cut to 3 has width 6, and a tail that
  starts with \<open>ESC [ 3 1 m\<close> is cut inside that sequence. For a negative \<open>maxWidth\<close> the
  result is empty, of width 0, which is more than \<open>maxWidth\<close>.
\<close>

theorem truncate_breaks_bounds:
  "truncate (str ''hi'') 3 (str ''....'') = str ''hi''
   \<and> take 3 (str ''....'') = str ''...''
   \<and> truncate (str ''hello'') 3 [0x4f60, 0x597d, 0x4f60] = [0x4f60, 0x597d, 0x4f60]
   \<and> stringWidth [0x4f60, 0x597d, 0x4f60] = 6
   \<and> truncate (str ''hello'') 3 ([0x1b] @ str ''[31m...'') = [0x1b] @ str ''[3''
   \<and> truncate (str ''hello'') (- 1) [] = []
   \<and> \<not> int (stringWidth (truncate (str ''hello'') (- 1) [])) \<le> - 1"
  by (simp add: truncate_def stringWidth_def sumWidths_def stripAnsi_def codePointWidth_def
      isCsiFinal_def isCsiParam_def isCsiIntermediate_def str_def)

text \<open>
  C1, amended: \<open>truncate(s, maxWidth, tail)\<close> is the empty string when \<open>maxWidth <= 0\<close>, and
  \<open>s\<close> itself when \<open>0 < maxWidth\<close> and \<open>s\<close> is no wider than \<open>maxWidth\<close>, whatever the tail.
  When \<open>s\<close> is wider than \<open>maxWidth > 0\<close>, it is the tail cut to \<open>maxWidth\<close> code units if
  the tail is as wide as \<open>maxWidth\<close> or wider. If the tail is narrower and \<open>s\<close> is
  well-escaped, it is a prefix of \<open>s\<close> followed by the tail, and that prefix ends outside
  every control sequence (the scanner of \<open>stripAnsi\<close>, run over the prefix, ends in \<open>Ground\<close>)
  and is no wider than \<open>maxWidth\<close> less the width of the tail. When the tail is narrower than
  \<open>maxWidth\<close>, \<open>s\<close> is well-escaped and \<open>0x9D\<close> does not occur in the tail, the result is no
  wider than \<open>maxWidth\<close>. Of a string that is not well-escaped and is cut, nothing is said.
\<close>

theorem truncate_cases:
  "(mw \<le> 0 \<longrightarrow> truncate s mw tail = [])
   \<and> (0 < mw \<and> int (stringWidth s) \<le> mw \<longrightarrow> truncate s mw tail = s)
   \<and> (0 < mw \<and> mw < int (stringWidth s) \<and> mw \<le> int (stringWidth tail)
        \<longrightarrow> truncate s mw tail = take (nat mw) tail)
   \<and> (0 < mw \<and> mw < int (stringWidth s) \<and> int (stringWidth tail) < mw \<and> wellEscaped s
        \<longrightarrow> (\<exists>kept rest. s = kept @ rest \<and> truncate s mw tail = kept @ tail
               \<and> stripState Ground kept = Ground
               \<and> int (stringWidth kept) \<le> mw - int (stringWidth tail)))
   \<and> (int (stringWidth tail) < mw \<and> wellEscaped s \<and> 0x9d \<notin> set tail
        \<longrightarrow> int (stringWidth (truncate s mw tail)) \<le> mw)"
proof -
  have a: "mw \<le> 0 \<longrightarrow> truncate s mw tail = []"
    by (simp add: truncate_def)
  have b: "0 < mw \<and> int (stringWidth s) \<le> mw \<longrightarrow> truncate s mw tail = s"
    by (simp add: truncate_def)
  have c: "0 < mw \<and> mw < int (stringWidth s) \<and> mw \<le> int (stringWidth tail)
        \<longrightarrow> truncate s mw tail = take (nat mw) tail"
    by (simp add: truncate_def)
  have d: "0 < mw \<and> mw < int (stringWidth s) \<and> int (stringWidth tail) < mw \<and> wellEscaped s
        \<longrightarrow> (\<exists>kept rest. s = kept @ rest \<and> truncate s mw tail = kept @ tail
               \<and> stripState Ground kept = Ground
               \<and> int (stringWidth kept) \<le> mw - int (stringWidth tail))"
    using truncate_cut_closed by blast
  have e: "int (stringWidth (truncate s mw tail)) \<le> mw"
    if h: "int (stringWidth tail) < mw" "wellEscaped s" "0x9d \<notin> set tail"
  proof (cases "int (stringWidth s) \<le> mw")
    case True
    with h(1) have "truncate s mw tail = s" by (simp add: truncate_def)
    with True show ?thesis by simp
  next
    case False
    with h(1) have "0 < mw" "mw < int (stringWidth s)" by simp_all
    from truncate_cut_width [OF this h] show ?thesis .
  qed
  from a b c d e show ?thesis by blast
qed

theorem truncate_cases_witness:
  "truncate (str ''hello'') 0 (str ''...'') = []
   \<and> int (stringWidth (str ''hi'')) \<le> 5 \<and> truncate (str ''hi'') 5 (str ''...'') = str ''hi''
   \<and> 3 < int (stringWidth (str ''hello'')) \<and> 3 \<le> int (stringWidth (str ''....''))
   \<and> truncate (str ''hello'') 3 (str ''....'') = str ''...''
   \<and> 8 < int (stringWidth ([0x1b] @ str ''[31mhello world'' @ [0x1b] @ str ''[m''))
   \<and> int (stringWidth (str ''...'')) < 8
   \<and> wellEscaped ([0x1b] @ str ''[31mhello world'' @ [0x1b] @ str ''[m'')
   \<and> 0x9d \<notin> set (str ''...'')
   \<and> truncate ([0x1b] @ str ''[31mhello world'' @ [0x1b] @ str ''[m'') 8 (str ''...'')
       = [0x1b] @ str ''[31mhello...''
   \<and> stripState Ground ([0x1b] @ str ''[31mhello'') = Ground
   \<and> int (stringWidth ([0x1b] @ str ''[31mhello'')) \<le> 8 - int (stringWidth (str ''...''))
   \<and> int (stringWidth
         (truncate ([0x1b] @ str ''[31mhello world'' @ [0x1b] @ str ''[m'') 8 (str ''...'')))
       \<le> 8"
  using truncate_cases [of 0 "str ''hello''" "str ''...''"]
    truncate_cases [of 5 "str ''hi''" "str ''...''"]
    truncate_cases [of 3 "str ''hello''" "str ''....''"]
    truncate_cases [of 8 "[0x1b] @ str ''[31mhello world'' @ [0x1b] @ str ''[m''" "str ''...''"]
  by (simp add: truncate_def stringWidth_def sumWidths_def stripAnsi_def codePointWidth_def
      isCsiFinal_def isCsiParam_def isCsiIntermediate_def str_def)

section \<open>Options and rendering\<close>

lemmas eval_defs = render_def renderBox_def maxConstraints_def applyMargin_def bindE_def
  convertTabs_def applyPadding_def built_def maxStringLength_def newArrayFill_def
  buildStyleSequence_def buildWhitespaceSequence_def hasBorder_def wsWrap_def
  clampLine_def style_def Style_bold_def Style_maxWidth_def Style_margin_def
  Style_width_def Style_tabWidth_def Style_padding_def
  CSI_def RESET_def space_def rep_def repeat_def replaceTabs_def
  stringWidth_def sumWidths_def stripAnsi_def codePointWidth_def maxLineWidth_def
  isCsiFinal_def isCsiParam_def isCsiIntermediate_def str_def

text \<open>
  With a negative right margin beside a positive top margin, \<open>applyMargin\<close> asks for a
  negative number of spaces: \<open>style().margin(1, -1).render('x')\<close> raises.
\<close>

lemma render_mixed_margin_raises:
  "render enc (Style_margin 1 (Some (- 1)) None None style) [str ''x'']
     = Inl (RangeError InvalidCount)"
  by (simp add: eval_defs)

text \<open>
  The engine's limits are met by sizes that are not negative: a top margin of \<open>2^32\<close> rows
  is an array that cannot be made, and a width of \<open>2^29\<close> columns is a string that cannot be
  built. \<open>style().marginTop(2**32).render('x')\<close> and \<open>style().width(2**29).render('x')\<close>
  raise.
\<close>

lemma render_limits_raise:
  "render enc (Style_marginTop (2 ^ 32) style) [str ''x'']
     = Inl (RangeError InvalidArrayLength)
   \<and> render enc (Style_width (2 ^ 29) style) [str ''x'']
     = Inl (RangeError InvalidStringLength)"
  by (simp add: eval_defs Style_marginTop_def applyWidth_def)

text \<open>
  A stage raises a given error only if one of its calls does: a sequence of calls, a branch,
  a call for every line.
\<close>

lemma bindE_not:
  "m \<noteq> Inl e \<Longrightarrow> (\<And>x. f x \<noteq> Inl e) \<Longrightarrow> bindE m f \<noteq> Inl e"
  by (cases m) (simp_all add: bindE_def)

lemma if_not:
  "(c \<Longrightarrow> a \<noteq> Inl e) \<Longrightarrow> (\<not> c \<Longrightarrow> b \<noteq> Inl e) \<Longrightarrow> (if c then a else b) \<noteq> Inl e"
  by simp

lemma Inr_not: "Inr x \<noteq> Inl e"
  by simp

lemma mapE_not: "(\<And>x. f x \<noteq> Inl e) \<Longrightarrow> mapE f xs \<noteq> Inl e"
  by (induction xs) (auto split: sum.splits)

lemmas not_intros = bindE_not if_not mapE_not Inr_not

lemma built_not:
  "built s \<noteq> Inl (RangeError InvalidCount)" "built s \<noteq> Inl (RangeError InvalidArrayLength)"
  by (simp_all add: built_def)

lemma repeat_not_count: "0 \<le> n \<Longrightarrow> repeat s n \<noteq> Inl (RangeError InvalidCount)"
  by (simp add: repeat_def)

lemma repeat_not_array: "repeat s n \<noteq> Inl (RangeError InvalidArrayLength)"
  by (simp add: repeat_def)

lemma newArrayFill_not_count: "newArrayFill n x \<noteq> Inl (RangeError InvalidCount)"
  by (simp add: newArrayFill_def)

lemma newArrayFill_not_array:
  "0 \<le> n \<Longrightarrow> n < 2 ^ 32 \<Longrightarrow> newArrayFill n x \<noteq> Inl (RangeError InvalidArrayLength)"
  by (simp add: newArrayFill_def)

lemmas not_count = built_not(1) repeat_not_count newArrayFill_not_count

lemmas not_array = built_not(2) repeat_not_array newArrayFill_not_array

text \<open>No stage before the margin asks for a negative number of copies.\<close>

lemma convertTabs_not_count: "convertTabs opts s \<noteq> Inl (RangeError InvalidCount)"
  unfolding convertTabs_def by (intro not_intros; simp add: not_count)

lemma applyPadding_not_count: "applyPadding ws opts s \<noteq> Inl (RangeError InvalidCount)"
  unfolding applyPadding_def by (intro not_intros; simp add: not_count)

lemma applyWidth_not_count: "applyWidth s w a ws \<noteq> Inl (RangeError InvalidCount)"
  unfolding applyWidth_def Let_def by (intro not_intros; simp add: not_count)

lemma applyHeight_not_count: "applyHeight s h a ws \<noteq> Inl (RangeError InvalidCount)"
  unfolding applyHeight_def Let_def by (intro not_intros; simp add: not_count)

lemma applyBorder_not_count: "applyBorder enc opts s \<noteq> Inl (RangeError InvalidCount)"
  unfolding applyBorder_def Let_def by (intro not_intros; simp add: not_count)

lemma renderBox_not_count: "renderBox enc opts strs \<noteq> Inl (RangeError InvalidCount)"
  unfolding renderBox_def Let_def
  by (intro not_intros convertTabs_not_count applyPadding_not_count applyWidth_not_count
      applyHeight_not_count applyBorder_not_count; simp add: not_count)

lemma applyMargin_not_count:
  "0 \<le> marginLeft opts \<Longrightarrow> 0 \<le> marginRight opts \<Longrightarrow>
   applyMargin enc opts s \<noteq> Inl (RangeError InvalidCount)"
  unfolding applyMargin_def Let_def by (intro not_intros; simp add: not_count)

lemma render_not_count:
  "0 \<le> marginLeft opts \<Longrightarrow> 0 \<le> marginRight opts \<Longrightarrow>
   render enc opts strs \<noteq> Inl (RangeError InvalidCount)"
  unfolding render_def
  by (intro not_intros renderBox_not_count applyMargin_not_count; simp)

text \<open>An array is asked for by \<open>applyHeight\<close> and \<open>applyMargin\<close> only.\<close>

lemma convertTabs_not_array: "convertTabs opts s \<noteq> Inl (RangeError InvalidArrayLength)"
  unfolding convertTabs_def by (intro not_intros; simp add: not_array)

lemma applyPadding_not_array: "applyPadding ws opts s \<noteq> Inl (RangeError InvalidArrayLength)"
  unfolding applyPadding_def by (intro not_intros; simp add: not_array)

lemma applyWidth_not_array: "applyWidth s w a ws \<noteq> Inl (RangeError InvalidArrayLength)"
  unfolding applyWidth_def Let_def by (intro not_intros; simp add: not_array)

lemma applyHeight_not_array:
  "h < 2 ^ 32 \<Longrightarrow> applyHeight s h a ws \<noteq> Inl (RangeError InvalidArrayLength)"
  unfolding applyHeight_def Let_def by (intro not_intros; simp add: not_array)

lemma applyBorder_not_array: "applyBorder enc opts s \<noteq> Inl (RangeError InvalidArrayLength)"
  unfolding applyBorder_def Let_def by (intro not_intros; simp add: not_array)

lemma renderBox_not_array:
  "height opts < 2 ^ 32 \<Longrightarrow> renderBox enc opts strs \<noteq> Inl (RangeError InvalidArrayLength)"
  unfolding renderBox_def Let_def
  by (intro not_intros convertTabs_not_array applyPadding_not_array applyWidth_not_array
      applyHeight_not_array applyBorder_not_array; simp add: not_array)

lemma applyMargin_not_array:
  "marginTop opts < 2 ^ 32 \<Longrightarrow> marginBottom opts < 2 ^ 32 \<Longrightarrow>
   applyMargin enc opts s \<noteq> Inl (RangeError InvalidArrayLength)"
  unfolding applyMargin_def Let_def by (intro not_intros; simp add: not_array)

lemma render_not_array:
  "height opts < 2 ^ 32 \<Longrightarrow> marginTop opts < 2 ^ 32 \<Longrightarrow> marginBottom opts < 2 ^ 32 \<Longrightarrow>
   render enc opts strs \<noteq> Inl (RangeError InvalidArrayLength)"
  unfolding render_def
  by (intro not_intros renderBox_not_array applyMargin_not_array; simp)

text \<open>
  C2, as stated, fails: the methods \<open>tabWidth\<close> and \<open>padding\<close> store a negative argument as
  it is, not 0.
\<close>

theorem negative_inputs_stored:
  "tabWidth (Style_tabWidth (- 1) (style :: unit StyleOptions)) = - 1
   \<and> paddingLeft (Style_padding (- 2) None None None (style :: unit StyleOptions)) = - 2
   \<and> paddingTop (Style_paddingTop (- 3) (style :: unit StyleOptions)) = - 3"
  by (simp add: Style_tabWidth_def Style_padding_def Style_paddingTop_def style_def)

text \<open>
  C2, amended: the methods \<open>width\<close>, \<open>height\<close>, \<open>maxWidth\<close> and \<open>maxHeight\<close> store their
  argument clamped to non-negative; the methods for \<open>tabWidth\<close> and the paddings store their
  arguments unchanged, \<open>padding\<close> in each of its forms of one, two, three and four arguments
  (top, right, bottom and left are listed in this order); and for every text and all options
  of integer sizes whose left and right margins are not negative, \<open>render\<close> asks \<open>repeat\<close>
  for no negative number of copies. If moreover the height and the top and bottom margins are below \<open>2^32\<close>,
  \<open>render\<close> asks for no array that cannot be made: what is left to raise is a string longer
  than the engine builds.
\<close>

theorem sizes_clamped_no_negative_count:
  "width (Style_width v opts) = max 0 v
   \<and> height (Style_height v opts) = max 0 v
   \<and> maxWidth (Style_maxWidth v opts) = max 0 v
   \<and> maxHeight (Style_maxHeight v opts) = max 0 v
   \<and> tabWidth (Style_tabWidth v opts) = v
   \<and> paddingTop (Style_paddingTop v opts) = v
   \<and> paddingRight (Style_paddingRight v opts) = v
   \<and> paddingBottom (Style_paddingBottom v opts) = v
   \<and> paddingLeft (Style_paddingLeft v opts) = v
   \<and> map (\<lambda>side. side (Style_padding t None b l opts))
        [paddingTop, paddingRight, paddingBottom, paddingLeft] = [t, t, t, t]
   \<and> map (\<lambda>side. side (Style_padding t (Some rv) None l opts))
        [paddingTop, paddingRight, paddingBottom, paddingLeft] = [t, rv, t, rv]
   \<and> map (\<lambda>side. side (Style_padding t (Some rv) (Some bv) None opts))
        [paddingTop, paddingRight, paddingBottom, paddingLeft] = [t, rv, bv, rv]
   \<and> map (\<lambda>side. side (Style_padding t (Some rv) (Some bv) (Some lv) opts))
        [paddingTop, paddingRight, paddingBottom, paddingLeft] = [t, rv, bv, lv]
   \<and> (0 \<le> marginLeft opts \<and> 0 \<le> marginRight opts
        \<longrightarrow> render enc opts strs \<noteq> Inl (RangeError InvalidCount))
   \<and> (0 \<le> marginLeft opts \<and> 0 \<le> marginRight opts
        \<and> height opts < 2 ^ 32 \<and> marginTop opts < 2 ^ 32 \<and> marginBottom opts < 2 ^ 32
        \<longrightarrow> (\<exists>out. render enc opts strs = Inr out)
            \<or> render enc opts strs = Inl (RangeError InvalidStringLength))"
proof -
  have c: "render enc opts strs \<noteq> Inl (RangeError InvalidCount)"
    if "0 \<le> marginLeft opts" and "0 \<le> marginRight opts"
    using that by (rule render_not_count)
  have a: "render enc opts strs \<noteq> Inl (RangeError InvalidArrayLength)"
    if "height opts < 2 ^ 32" and "marginTop opts < 2 ^ 32" and "marginBottom opts < 2 ^ 32"
    using that by (rule render_not_array)
  have e: "(\<exists>out. render enc opts strs = Inr out)
           \<or> render enc opts strs = Inl (RangeError InvalidStringLength)"
    if "render enc opts strs \<noteq> Inl (RangeError InvalidCount)"
      and "render enc opts strs \<noteq> Inl (RangeError InvalidArrayLength)"
  proof (cases "render enc opts strs")
    case (Inl err)
    obtain k where "err = RangeError k" by (cases err)
    with Inl that show ?thesis by (cases k) simp_all
  next
    case (Inr out)
    then show ?thesis by simp
  qed
  have s: "width (Style_width v opts) = max 0 v
   \<and> height (Style_height v opts) = max 0 v
   \<and> maxWidth (Style_maxWidth v opts) = max 0 v
   \<and> maxHeight (Style_maxHeight v opts) = max 0 v
   \<and> tabWidth (Style_tabWidth v opts) = v
   \<and> paddingTop (Style_paddingTop v opts) = v
   \<and> paddingRight (Style_paddingRight v opts) = v
   \<and> paddingBottom (Style_paddingBottom v opts) = v
   \<and> paddingLeft (Style_paddingLeft v opts) = v"
    by (simp add: Style_width_def Style_height_def Style_maxWidth_def Style_maxHeight_def
        Style_tabWidth_def Style_paddingTop_def Style_paddingRight_def Style_paddingBottom_def
        Style_paddingLeft_def)
  have p: "map (\<lambda>side. side (Style_padding t None b l opts))
        [paddingTop, paddingRight, paddingBottom, paddingLeft] = [t, t, t, t]
   \<and> map (\<lambda>side. side (Style_padding t (Some rv) None l opts))
        [paddingTop, paddingRight, paddingBottom, paddingLeft] = [t, rv, t, rv]
   \<and> map (\<lambda>side. side (Style_padding t (Some rv) (Some bv) None opts))
        [paddingTop, paddingRight, paddingBottom, paddingLeft] = [t, rv, bv, rv]
   \<and> map (\<lambda>side. side (Style_padding t (Some rv) (Some bv) (Some lv) opts))
        [paddingTop, paddingRight, paddingBottom, paddingLeft] = [t, rv, bv, lv]"
    by (simp add: Style_padding_def)
  from s p c a e show ?thesis by blast
qed

theorem sizes_clamped_no_negative_count_witness:
  "0 \<le> marginLeft (Style_margin 1 None None None (style :: unit StyleOptions))
   \<and> 0 \<le> marginRight (Style_margin 1 None None None (style :: unit StyleOptions))
   \<and> height (Style_margin 1 None None None (style :: unit StyleOptions)) < 2 ^ 32
   \<and> marginTop (Style_margin 1 None None None (style :: unit StyleOptions)) < 2 ^ 32
   \<and> marginBottom (Style_margin 1 None None None (style :: unit StyleOptions)) < 2 ^ 32
   \<and> width (Style_width (- 5) (Style_margin 1 None None None (style :: unit StyleOptions))) = 0
   \<and> render (\<lambda>c f. []) (Style_margin 1 None None None (style :: unit StyleOptions))
         [str ''x''] \<noteq> Inl (RangeError InvalidCount)
   \<and> render (\<lambda>c f. []) (Style_margin 1 None None None (style :: unit StyleOptions))
         [str ''x''] = Inr (str ''   '' @ [0x0a] @ str '' x '' @ [0x0a] @ str ''   '')"
proof -
  have m: "0 \<le> marginLeft (Style_margin 1 None None None (style :: unit StyleOptions))
     \<and> 0 \<le> marginRight (Style_margin 1 None None None (style :: unit StyleOptions))
     \<and> height (Style_margin 1 None None None (style :: unit StyleOptions)) < 2 ^ 32
     \<and> marginTop (Style_margin 1 None None None (style :: unit StyleOptions)) < 2 ^ 32
     \<and> marginBottom (Style_margin 1 None None None (style :: unit StyleOptions)) < 2 ^ 32"
    by (simp add: Style_margin_def style_def)
  have r: "render (\<lambda>c f. []) (Style_margin 1 None None None (style :: unit StyleOptions))
         [str ''x''] = Inr (str ''   '' @ [0x0a] @ str '' x '' @ [0x0a] @ str ''   '')"
    by (simp add: eval_defs numeral_3_eq_3)
  from sizes_clamped_no_negative_count
    [where v = "- 5" and opts = "Style_margin 1 None None None (style :: unit StyleOptions)"
       and enc = "\<lambda>c f. []" and strs = "[str ''x'']"] m r
  show ?thesis by simp
qed

text \<open>
  C4: the claim is that the max-width stage cuts a line to \<open>maxWidth\<close> columns and keeps every
  control run whole, counting none as columns. The stage walks the code points of the line and
  measures each alone, so the bytes of an escape sequence after \<open>ESC\<close> count as one column
  each and the walk stops inside the sequence: \<open>style().bold().maxWidth(2).render('hello')\<close>
  is \<open>ESC [ 1\<close>, an unfinished CSI sequence and no letter of the text. \<open>truncate\<close> of
  width.ts cuts the same line to \<open>ESC [ 1 m h e\<close>.
\<close>

theorem render_maxWidth_cuts_escape:
  "render enc (Style_maxWidth 2 (Style_bold True style)) [str ''hello'']
     = Inr ([0x1b] @ str ''[1'')
   \<and> truncate ([0x1b] @ str ''[1mhello'' @ [0x1b] @ str ''[m'') 2 []
     = [0x1b] @ str ''[1mhe''"
  by (simp add: eval_defs truncate_def)

end
